theory Spec2Isabelle
  imports Main "HOL-Library.Sublist" "HOL-Library.AList"
begin

section \<open>Paths\<close>

text \<open>
  A path is the list of its components below the filesystem root, already absolute and
  normalised (what \<^verbatim>\<open>os.path.abspath\<close> and \<^verbatim>\<open>Path.resolve\<close> return). File names are
  strings.
\<close>

type_synonym path = "string list"

section \<open>Temp workspace: \<^verbatim>\<open>DocIndexer._prepare_temp_path\<close>\<close>

text \<open>
  What a directory entry can be, as far as \<^verbatim>\<open>os.path.exists\<close>, \<^verbatim>\<open>islink\<close>, \<^verbatim>\<open>isfile\<close> and
  \<^verbatim>\<open>isdir\<close> tell entries apart. A directory carries its own listing.
\<close>

datatype link_target = ToFile | ToDir | Dangling

datatype node = RegFile | SymLink link_target | Special | Directory "(string \<times> node) list"

type_synonym listing = "(string \<times> node) list"

text \<open>The state of \<^verbatim>\<open>temp_path\<close>: missing, something that is no directory, or a directory.\<close>

datatype temp_state = Absent | NonDirectory | TempDir listing

datatype prep_error =
    TempPathNotDirectory   \<comment> \<open>\<^verbatim>\<open>ValueError("Temp path must be a directory")\<close>\<close>
  | UnmanagedDirectory     \<comment> \<open>\<^verbatim>\<open>RuntimeError("... is not managed by Help Chat ...")\<close>\<close>
  | MarkdownNotDirectory   \<comment> \<open>\<^verbatim>\<open>FileExistsError\<close> of \<^verbatim>\<open>os.makedirs(markdown_dir, exist_ok=True)\<close>\<close>

definition sentinel_name :: string where
  "sentinel_name = ''.help_chat_temp''"

definition markdown_name :: string where
  "markdown_name = ''_markdown''"

definition LOG_FILE_NAME :: string where
  "LOG_FILE_NAME = ''program_debug.log''"

fun node_exists :: "node \<Rightarrow> bool" where
  "node_exists (SymLink Dangling) = False"
| "node_exists _ = True"

fun islink :: "node \<Rightarrow> bool" where
  "islink (SymLink _) = True"
| "islink _ = False"

fun isfile :: "node \<Rightarrow> bool" where
  "isfile RegFile = True"
| "isfile (SymLink ToFile) = True"
| "isfile _ = False"

fun isdir :: "node \<Rightarrow> bool" where
  "isdir (Directory _) = True"
| "isdir (SymLink ToDir) = True"
| "isdir _ = False"

text \<open>\<^verbatim>\<open>os.path.exists(os.path.join(temp_path, name))\<close>: follows a symbolic link.\<close>

definition path_exists :: "listing \<Rightarrow> string \<Rightarrow> bool" where
  "path_exists es name = (case map_of es name of None \<Rightarrow> False | Some n \<Rightarrow> node_exists n)"

definition remove_entry :: "string \<Rightarrow> listing \<Rightarrow> listing" where
  "remove_entry name es = filter (\<lambda>e. fst e \<noteq> name) es"

text \<open>
  \<^verbatim>\<open>os.unlink\<close> of a top-level entry. It raises \<^verbatim>\<open>OSError\<close> on a directory, on a missing
  entry and wherever the operating system refuses (\<open>rm_fails\<close>, a parameter); \<open>None\<close> is
  the \<^verbatim>\<open>OSError\<close>.
\<close>

definition os_unlink :: "(string \<Rightarrow> bool) \<Rightarrow> string \<Rightarrow> listing \<Rightarrow> listing option" where
  "os_unlink rm_fails name es =
     (case map_of es name of
        None \<Rightarrow> None
      | Some (Directory _) \<Rightarrow> None
      | Some _ \<Rightarrow> if rm_fails name then None else Some (remove_entry name es))"

text \<open>\<^verbatim>\<open>Path(sentinel_path).touch()\<close>: creates an empty regular file unless the entry exists.\<close>

definition touch :: "string \<Rightarrow> listing \<Rightarrow> listing" where
  "touch name es = (if map_of es name = None then es @ [(name, RegFile)] else es)"

text \<open>
  Lines 289-293: every legacy log file of the listing is unlinked, an \<^verbatim>\<open>OSError\<close> is
  swallowed.
\<close>

fun unlink_all :: "(string \<Rightarrow> bool) \<Rightarrow> string list \<Rightarrow> listing \<Rightarrow> listing" where
  "unlink_all rm_fails [] es = es"
| "unlink_all rm_fails (item # items) es =
     unlink_all rm_fails items
       (case os_unlink rm_fails item es of None \<Rightarrow> es | Some es' \<Rightarrow> es')"

text \<open>
  Lines 299-309: the name to protect. With both paths absolute and normalised,
  \<^verbatim>\<open>embeddings_abs.startswith(temp_abs + os.sep)\<close> says that \<open>temp_path\<close> is a proper
  prefix of the store's path (and never holds for the root directory, whose string is the
  separator itself); the protected name is the last component of the store's path,
  however deep below \<open>temp_path\<close> the store lies.
\<close>

definition basename :: "path \<Rightarrow> string" where
  "basename p = (if p = [] then [] else last p)"

definition embeddings_basename :: "path \<Rightarrow> path \<Rightarrow> string option" where
  "embeddings_basename temp_path embeddings_path =
     (if (temp_path \<noteq> [] \<and> strict_prefix temp_path embeddings_path) \<or> embeddings_path = temp_path
      then Some (basename embeddings_path) else None)"

text \<open>
  Lines 311-335, one iteration: the sentinel and \<^verbatim>\<open>_markdown\<close> stay, the legacy log is
  unlinked, the protected name stays, and anything else is removed when it is a link, a
  file or a directory and the removal does not fail.
\<close>

definition cleanup_item :: "(string \<Rightarrow> bool) \<Rightarrow> string option \<Rightarrow> listing \<Rightarrow> string \<Rightarrow> listing" where
  "cleanup_item rm_fails protected es item =
     (if item = sentinel_name \<or> item = markdown_name then es
      else if item = LOG_FILE_NAME then
        (case os_unlink rm_fails item es of None \<Rightarrow> es | Some es' \<Rightarrow> es')
      else if (case protected of None \<Rightarrow> False | Some b \<Rightarrow> b \<noteq> [] \<and> item = b) then es
      else
        (case map_of es item of
           None \<Rightarrow> es
         | Some n \<Rightarrow>
             if rm_fails item then es
             else if islink n \<or> isfile n \<or> isdir n then remove_entry item es
             else es))"

definition cleanup_loop :: "(string \<Rightarrow> bool) \<Rightarrow> string option \<Rightarrow> listing \<Rightarrow> listing" where
  "cleanup_loop rm_fails protected es = foldl (cleanup_item rm_fails protected) es (map fst es)"

text \<open>\<^verbatim>\<open>os.makedirs(markdown_dir, exist_ok=True)\<close> on the listing of \<open>temp_path\<close>.\<close>

definition makedirs_markdown :: "listing \<Rightarrow> prep_error + listing" where
  "makedirs_markdown es =
     (case map_of es markdown_name of
        None \<Rightarrow> Inr (es @ [(markdown_name, Directory [])])
      | Some n \<Rightarrow> if isdir n then Inr es else Inl MarkdownNotDirectory)"

text \<open>
  The whole of \<^verbatim>\<open>_prepare_temp_path\<close>. It returns the error, or nothing (the markdown
  directory is always \<open>temp_path @ [markdown_name]\<close>), together with the state in which
  it leaves \<open>temp_path\<close>.
\<close>

definition finish_prepare :: "(string \<Rightarrow> bool) \<Rightarrow> path \<Rightarrow> path \<Rightarrow> listing \<Rightarrow> (prep_error + unit) \<times> temp_state" where
  "finish_prepare rm_fails temp_path embeddings_path es =
     (let es' = cleanup_loop rm_fails (embeddings_basename temp_path embeddings_path) es
      in case makedirs_markdown es' of
           Inl e \<Rightarrow> (Inl e, TempDir es')
         | Inr es'' \<Rightarrow> (Inr (), TempDir es''))"

fun prepare_temp_path :: "(string \<Rightarrow> bool) \<Rightarrow> path \<Rightarrow> path \<Rightarrow> temp_state \<Rightarrow> (prep_error + unit) \<times> temp_state" where
  "prepare_temp_path rm_fails temp_path embeddings_path Absent =
     finish_prepare rm_fails temp_path embeddings_path (touch sentinel_name [])"
| "prepare_temp_path rm_fails temp_path embeddings_path NonDirectory =
     (Inl TempPathNotDirectory, NonDirectory)"
| "prepare_temp_path rm_fails temp_path embeddings_path (TempDir existing_items) =
     (if \<not> path_exists existing_items sentinel_name then
        (let removable_items = filter (\<lambda>item. item = LOG_FILE_NAME) (map fst existing_items)
         in if length removable_items \<noteq> length existing_items
            then (Inl UnmanagedDirectory, TempDir existing_items)
            else finish_prepare rm_fails temp_path embeddings_path
                   (touch sentinel_name (unlink_all rm_fails removable_items existing_items)))
      else finish_prepare rm_fails temp_path embeddings_path existing_items)"

text \<open>
  Which entries a cleanup leaves behind: the sentinel and \<^verbatim>\<open>_markdown\<close>; the legacy log
  only when it cannot be unlinked; the protected name; and whatever else cannot be
  removed or is neither link, file nor directory.
\<close>

definition survives_cleanup :: "(string \<Rightarrow> bool) \<Rightarrow> string option \<Rightarrow> string \<times> node \<Rightarrow> bool" where
  "survives_cleanup rm_fails protected entry =
     (case entry of (name, n) \<Rightarrow>
        name = sentinel_name \<or> name = markdown_name
        \<or> (if name = LOG_FILE_NAME then (case n of Directory sub \<Rightarrow> True | _ \<Rightarrow> rm_fails name)
            else (case protected of None \<Rightarrow> False | Some b \<Rightarrow> b \<noteq> [] \<and> name = b)
                 \<or> rm_fails name \<or> \<not> (islink n \<or> isfile n \<or> isdir n)))"

text \<open>What lies at a path below \<open>temp_path\<close>, if anything.\<close>

fun lookup_path :: "listing \<Rightarrow> path \<Rightarrow> node option" where
  "lookup_path es [] = None"
| "lookup_path es [name] = map_of es name"
| "lookup_path es (name # rest) =
     (case map_of es name of Some (Directory sub) \<Rightarrow> lookup_path sub rest | _ \<Rightarrow> None)"

fun listing_of :: "temp_state \<Rightarrow> listing" where
  "listing_of (TempDir es) = es"
| "listing_of _ = []"

section \<open>Snapshot paths: \<^verbatim>\<open>pathlib\<close> as the indexer uses it\<close>

text \<open>\<^verbatim>\<open>str.rfind\<close> of one character: the last index where it occurs.\<close>

definition rfind :: "char \<Rightarrow> string \<Rightarrow> nat option" where
  "rfind c s =
     (if c \<in> set s then Some (length s - 1 - length (takeWhile (\<lambda>x. x \<noteq> c) (rev s))) else None)"

text \<open>
  \<^verbatim>\<open>PurePath.suffix\<close> on the final component: from the last dot on, unless that dot is the
  first or the last character of the name.
\<close>

definition name_suffix :: "string \<Rightarrow> string" where
  "name_suffix name =
     (case rfind (CHR ''.'') name of
        None \<Rightarrow> []
      | Some i \<Rightarrow> if 0 < i \<and> i < length name - 1 then drop i name else [])"

text \<open>
  \<^verbatim>\<open>PurePath.with_suffix\<close>: \<^verbatim>\<open>ValueError\<close> (here \<open>None\<close>) on an empty name, otherwise the
  old suffix of the final component is cut off and the new one appended.
\<close>

definition with_suffix :: "path \<Rightarrow> string \<Rightarrow> path option" where
  "with_suffix p new_suffix =
     (let name = basename p; old_suffix = name_suffix name
      in if name = [] then None
         else if old_suffix = [] then Some (butlast p @ [name @ new_suffix])
         else Some (butlast p @ [take (length name - length old_suffix) name @ new_suffix]))"

text \<open>\<^verbatim>\<open>PurePath.relative_to\<close>: \<^verbatim>\<open>ValueError\<close> (here \<open>None\<close>) unless \<open>root\<close> is a prefix.\<close>

definition relative_to :: "path \<Rightarrow> path \<Rightarrow> path option" where
  "relative_to source root = (if prefix root source then Some (drop (length root) source) else None)"

text \<open>\<^verbatim>\<open>Path(name)\<close>: the one-component relative path, or the empty one for an empty name.\<close>

definition path_of_name :: "string \<Rightarrow> path" where
  "path_of_name name = (if name = [] then [] else [name])"

definition md_suffix :: "path \<Rightarrow> string" where
  "md_suffix source =
     (if name_suffix (basename source) \<noteq> [] then name_suffix (basename source) @ ''.md''
      else ''.md'')"

text \<open>
  Lines 494-506 of \<^verbatim>\<open>_generate_embedding\<close>: where the snapshot of a source is written. A
  source outside \<open>root_path\<close> falls back to its file name.
\<close>

definition snapshot_write_path :: "path \<Rightarrow> path \<Rightarrow> path \<Rightarrow> path option" where
  "snapshot_write_path file_path markdown_dir root_path =
     (let relative_path =
            (case relative_to file_path root_path of
               Some r \<Rightarrow> r
             | None \<Rightarrow> path_of_name (basename file_path));
          markdown_base = markdown_dir @ relative_path
      in with_suffix markdown_base (md_suffix file_path))"

text \<open>
  Lines 367-383 of \<^verbatim>\<open>_delete_markdown_snapshot\<close>: which snapshot is looked for when a
  source is removed. A source outside \<open>root_path\<close> makes the method return at once
  (\<open>NoSnapshot\<close>); the \<^verbatim>\<open>ValueError\<close> of \<^verbatim>\<open>with_suffix\<close> is not caught there
  (\<open>SuffixError\<close>).
\<close>

datatype delete_target = NoSnapshot | SuffixError | Snapshot path

definition snapshot_delete_path :: "path \<Rightarrow> path \<Rightarrow> path \<Rightarrow> delete_target" where
  "snapshot_delete_path file_path markdown_dir root_path =
     (case relative_to file_path root_path of
        None \<Rightarrow> NoSnapshot
      | Some relative \<Rightarrow>
          (case with_suffix (markdown_dir @ relative) (md_suffix file_path) of
             None \<Rightarrow> SuffixError
           | Some snapshot \<Rightarrow> Snapshot snapshot))"

text \<open>
  \<^verbatim>\<open>HelpChat._resolve_markdown_path\<close> (llm.py, lines 384-407), the reader's side of the same
  mapping, with \<open>temp_path / "_markdown"\<close> as the markdown directory.
\<close>

definition resolve_markdown_path :: "path \<Rightarrow> path \<Rightarrow> path \<Rightarrow> path option" where
  "resolve_markdown_path file_path temp_path root_path =
     (case relative_to file_path root_path of
        None \<Rightarrow> None
      | Some relative \<Rightarrow> with_suffix ((temp_path @ [markdown_name]) @ relative) (md_suffix file_path))"

section \<open>The indexer's state and its collaborators\<close>

text \<open>A row of the table \<^verbatim>\<open>embeddings\<close>; the table is keyed by \<^verbatim>\<open>file_path\<close>.\<close>

record row =
  file_hash :: string
  embedding_vector :: string
  last_updated :: nat
  file_extension :: string

type_synonym table = "(path \<times> row) list"

datatype pool_kind = Conversion | Embedding

text \<open>\<^verbatim>\<open>ProcessPoolExecutor(max_workers=n)\<close>.\<close>

datatype pool = ProcessPoolExecutor nat

text \<open>
  What an observer sees of one pass, in order: a pool is created, a task is submitted to a
  pool and waited for with a timeout (seconds), the progress callback is invoked, a
  statement is executed on the cursor.
\<close>

datatype event =
    PoolCreated pool_kind
  | Submitted pool_kind int
  | Callback path
  | Inserted path
  | Updated path
  | Deleted path

text \<open>
  The statements the indexer executes on its cursor, with their parameters, and what the
  store's journal records of a connection: the \<^verbatim>\<open>BEGIN\<close> that \<^verbatim>\<open>sqlite3\<close> issues by itself
  before the first \<^verbatim>\<open>INSERT\<close>, \<^verbatim>\<open>UPDATE\<close> or \<^verbatim>\<open>DELETE\<close> outside a transaction, every
  statement that was executed, the \<^verbatim>\<open>COMMIT\<close> and the \<^verbatim>\<open>ROLLBACK\<close>.
\<close>

datatype statement = Insert path row | Update path row | Delete path

datatype sql_event = TxnBegin | Executed statement | TxnCommit | TxnRollback

text \<open>
  The fields of \<^verbatim>\<open>DocIndexer\<close> that change (lines 104-107), the snapshot tree on disk
  (the files with their text, keyed by path, and the directories), the rows as the open
  connection sees them, and the events so far. Then the store: the rows in its file,
  which a reader with another connection sees, whether the indexer's connection has a
  transaction open (\<^verbatim>\<open>conn.in_transaction\<close>), and the store's journal.
\<close>

record world =
  conversion_warmup_used :: bool
  conversion_executor :: "pool option"
  embedding_warmup_used :: bool
  embedding_executor :: "pool option"
  snap_files :: "(path \<times> string) list"
  snap_dirs :: "path set"
  staged :: table
  trace :: "event list"
  store_file :: table
  in_transaction :: bool
  journal :: "sql_event list"

text \<open>
  The tagged results of the two worker functions \<^verbatim>\<open>_convert_file_subprocess\<close> and
  \<^verbatim>\<open>_encode_text_subprocess\<close> (lines 33-78).
\<close>

datatype conv_status = Success string | Unsupported string | Error string

datatype enc_status = EncSuccess string | EncError string

text \<open>
  How a submitted task behaves: it returns its result after so many seconds, the pool
  breaks after so many seconds (\<^verbatim>\<open>submit\<close> or \<^verbatim>\<open>result\<close> raises), or it hangs.
  \<^verbatim>\<open>future.result(timeout=t)\<close> is \<open>wait_result t\<close>.
\<close>

datatype 'a outcome = Finished nat 'a | Broke nat | Hang

datatype 'a waited = Result 'a | TimedOut | Raised

fun wait_result :: "int \<Rightarrow> 'a outcome \<Rightarrow> 'a waited" where
  "wait_result t (Finished d r) = (if int d \<le> t then Result r else TimedOut)"
| "wait_result t (Broke d) = (if int d \<le> t then Raised else TimedOut)"
| "wait_result t Hang = TimedOut"

text \<open>
  The collaborators of one pass: the size a \<^verbatim>\<open>stat\<close> reports (\<open>None\<close>: \<^verbatim>\<open>OSError\<close>),
  the in-process converter, the two workers, the clock read when a row is written,
  which filesystem operations the operating system refuses, whether the final commit
  fails, and whether the caller passed a progress callback.
\<close>

record env =
  stat_size :: "path \<Rightarrow> nat option"
  markitdown_convert :: "path \<Rightarrow> conv_status"
  conversion_worker :: "path \<Rightarrow> conv_status outcome"
  embedding_worker :: "string \<Rightarrow> enc_status outcome"
  utc_now :: "path \<Rightarrow> nat"
  io_fails :: "path \<Rightarrow> bool"
  commit_fails :: bool
  has_progress_callback :: bool

datatype fatal =
    SuffixValueError     \<comment> \<open>\<^verbatim>\<open>ValueError\<close> of \<^verbatim>\<open>with_suffix\<close> on an empty name\<close>
  | MkdirFileExists      \<comment> \<open>\<^verbatim>\<open>FileExistsError\<close>/\<^verbatim>\<open>NotADirectoryError\<close> of \<^verbatim>\<open>mkdir(parents=True, exist_ok=True)\<close>\<close>
  | IntegrityError       \<comment> \<open>\<^verbatim>\<open>sqlite3.IntegrityError\<close>: \<^verbatim>\<open>INSERT\<close> of an existing key\<close>
  | StoreCommitError     \<comment> \<open>\<^verbatim>\<open>sqlite3.Error\<close> raised by \<^verbatim>\<open>conn.commit()\<close>\<close>

definition ARCHIVE_EXTENSIONS :: "string set" where
  "ARCHIVE_EXTENSIONS = {''.zip'', ''.tar'', ''.gz'', ''.bz2'', ''.xz''}"

definition MAX_ARCHIVE_SIZE_BYTES :: nat where
  "MAX_ARCHIVE_SIZE_BYTES = 50 * 1024 * 1024"

definition CONVERSION_STARTUP_BUFFER :: int where
  "CONVERSION_STARTUP_BUFFER = 15"

definition EMBEDDING_STARTUP_BUFFER :: int where
  "EMBEDDING_STARTUP_BUFFER = 20"

definition fast_formats :: "string set" where
  "fast_formats = {''.txt'', ''.md'', ''.json'', ''.csv'', ''.html'', ''.htm'', ''.xml''}"

text \<open>\<^verbatim>\<open>DocIndexer.__init__\<close> and an empty snapshot tree below \<open>markdown_dir\<close>.\<close>

definition init_world :: "path \<Rightarrow> world" where
  "init_world markdown_dir =
     \<lparr>conversion_warmup_used = False, conversion_executor = None,
      embedding_warmup_used = False, embedding_executor = None,
      snap_files = [], snap_dirs = set (prefixes markdown_dir),
      staged = [], trace = [],
      store_file = [], in_transaction = False, journal = []\<rparr>"

section \<open>Characters and whitespace\<close>

text \<open>
  \<^verbatim>\<open>str.isspace\<close>, \<^verbatim>\<open>str.lower\<close> and the class \<^verbatim>\<open>\w\<close> of \<^verbatim>\<open>re\<close> on the code points
  up to U+00FF, which is what a \<^typ>\<open>char\<close> holds.
\<close>

definition is_space :: "char \<Rightarrow> bool" where
  "is_space c =
     (let n = (of_char c :: nat)
      in (9 \<le> n \<and> n \<le> 13) \<or> (28 \<le> n \<and> n \<le> 32) \<or> n = 133 \<or> n = 160)"

definition lower_char :: "char \<Rightarrow> char" where
  "lower_char c =
     (let n = (of_char c :: nat)
      in if (65 \<le> n \<and> n \<le> 90) \<or> (192 \<le> n \<and> n \<le> 222 \<and> n \<noteq> 215) then char_of (n + 32) else c)"


definition lstrip_with :: "('a \<Rightarrow> bool) \<Rightarrow> 'a list \<Rightarrow> 'a list" where
  "lstrip_with sp s = dropWhile sp s"

definition rstrip_with :: "('a \<Rightarrow> bool) \<Rightarrow> 'a list \<Rightarrow> 'a list" where
  "rstrip_with sp s = rev (dropWhile sp (rev s))"

definition strip_with :: "('a \<Rightarrow> bool) \<Rightarrow> 'a list \<Rightarrow> 'a list" where
  "strip_with sp s = rstrip_with sp (lstrip_with sp s)"

text \<open>\<^verbatim>\<open>str.strip()\<close> and \<^verbatim>\<open>str.lower()\<close> on the text of a document.\<close>

definition strip :: "string \<Rightarrow> string" where
  "strip s = strip_with is_space s"

definition lower :: "string \<Rightarrow> string" where
  "lower s = map lower_char s"

section \<open>The snapshot tree on disk\<close>

text \<open>
  \<^verbatim>\<open>Path.mkdir(parents=True, exist_ok=True)\<close>: every missing directory on the way is
  created; a regular file in the way raises (here \<open>None\<close>), and nothing catches it.
\<close>

definition mkdir_parents :: "path \<Rightarrow> world \<Rightarrow> world option" where
  "mkdir_parents d w =
     (if \<exists>q \<in> set (prefixes d). q \<in> fst ` set (snap_files w) then None
      else Some (w\<lparr>snap_dirs := snap_dirs w \<union> set (prefixes d)\<rparr>))"

text \<open>
  \<^verbatim>\<open>Path.write_text\<close> inside \<^verbatim>\<open>try ... except OSError: pass\<close> (lines 557-561): the text
  is written unless the target is a directory, its parent is missing or the operating
  system refuses.
\<close>

definition write_text :: "env \<Rightarrow> path \<Rightarrow> string \<Rightarrow> world \<Rightarrow> world" where
  "write_text e p text_content w =
     (if p \<in> snap_dirs w \<or> butlast p \<notin> snap_dirs w \<or> io_fails e p then w
      else w\<lparr>snap_files := AList.update p text_content (snap_files w)\<rparr>)"

text \<open>\<^verbatim>\<open>Path.rmdir\<close>: \<^verbatim>\<open>OSError\<close> (here \<open>None\<close>) unless it is an empty directory.\<close>

definition has_children :: "world \<Rightarrow> path \<Rightarrow> bool" where
  "has_children w d = (\<exists>q \<in> fst ` set (snap_files w) \<union> snap_dirs w. q \<noteq> [] \<and> butlast q = d)"

definition rmdir :: "env \<Rightarrow> path \<Rightarrow> world \<Rightarrow> world option" where
  "rmdir e d w =
     (if d \<notin> snap_dirs w \<or> has_children w d \<or> io_fails e d then None
      else Some (w\<lparr>snap_dirs := snap_dirs w - {d}\<rparr>))"

text \<open>
  \<^verbatim>\<open>_prune_empty_markdown_dirs\<close> (lines 392-405): directories are removed upwards while
  the markdown root is a proper ancestor of the current one; the first \<^verbatim>\<open>rmdir\<close> that
  fails ends the loop.
\<close>

function prune_empty_markdown_dirs :: "env \<Rightarrow> path \<Rightarrow> path \<Rightarrow> world \<Rightarrow> world" where
  "prune_empty_markdown_dirs e current_dir markdown_root w =
     (if markdown_root \<noteq> current_dir \<and> strict_prefix markdown_root current_dir then
        (case rmdir e current_dir w of
           None \<Rightarrow> w
         | Some w' \<Rightarrow> prune_empty_markdown_dirs e (butlast current_dir) markdown_root w')
      else w)"
  by pat_completeness auto
termination
  by (relation "measure (\<lambda>(e, current_dir, markdown_root, w). length current_dir)")
     (auto simp: strict_prefix_def prefix_def)

declare prune_empty_markdown_dirs.simps [simp del]

text \<open>
  \<^verbatim>\<open>_delete_markdown_snapshot\<close> (lines 365-390). A source outside the root returns at
  once; otherwise an existing snapshot is unlinked and its directories pruned; an
  \<^verbatim>\<open>OSError\<close> of the unlink (a directory in the snapshot's place, a refusal) is swallowed.
\<close>

definition delete_markdown_snapshot :: "env \<Rightarrow> path \<Rightarrow> path \<Rightarrow> path \<Rightarrow> world \<Rightarrow> fatal + world" where
  "delete_markdown_snapshot e file_path markdown_dir root_path w =
     (case snapshot_delete_path file_path markdown_dir root_path of
        NoSnapshot \<Rightarrow> Inr w
      | SuffixError \<Rightarrow> Inl SuffixValueError
      | Snapshot snapshot \<Rightarrow>
          if snapshot \<in> fst ` set (snap_files w) \<and> \<not> io_fails e snapshot then
            Inr (prune_empty_markdown_dirs e (butlast snapshot) markdown_dir
                   (w\<lparr>snap_files := AList.delete snapshot (snap_files w)\<rparr>))
          else Inr w)"

section \<open>The two worker pools\<close>

definition ensure_conversion_executor :: "world \<Rightarrow> world" where
  "ensure_conversion_executor w =
     (if conversion_executor w = None
      then w\<lparr>conversion_executor := Some (ProcessPoolExecutor 2),
             trace := trace w @ [PoolCreated Conversion]\<rparr>
      else w)"

definition ensure_embedding_executor :: "world \<Rightarrow> world" where
  "ensure_embedding_executor w =
     (if embedding_executor w = None
      then w\<lparr>embedding_executor := Some (ProcessPoolExecutor 1),
             trace := trace w @ [PoolCreated Embedding]\<rparr>
      else w)"

definition shutdown_conversion_executor :: "world \<Rightarrow> world" where
  "shutdown_conversion_executor w = w\<lparr>conversion_executor := None\<rparr>"

definition shutdown_embedding_executor :: "world \<Rightarrow> world" where
  "shutdown_embedding_executor w = w\<lparr>embedding_executor := None\<rparr>"

text \<open>\<^verbatim>\<open>_convert_to_markdown\<close> (lines 578-626).\<close>

definition convert_to_markdown :: "env \<Rightarrow> path \<Rightarrow> int \<Rightarrow> world \<Rightarrow> string option \<times> world" where
  "convert_to_markdown e file_path timeout w0 =
     (let w1 = ensure_conversion_executor w0;
          effective_timeout =
            (if \<not> conversion_warmup_used w1 then timeout + CONVERSION_STARTUP_BUFFER else timeout);
          w = w1\<lparr>trace := trace w1 @ [Submitted Conversion effective_timeout]\<rparr>
      in case wait_result effective_timeout (conversion_worker e file_path) of
           Result (Success data) \<Rightarrow> (Some data, w\<lparr>conversion_warmup_used := True\<rparr>)
         | Result (Unsupported data) \<Rightarrow> (None, w)
         | Result (Error data) \<Rightarrow> (None, w)
         | TimedOut \<Rightarrow> (None, w\<lparr>conversion_executor := None, conversion_warmup_used := False\<rparr>)
         | Raised \<Rightarrow> (None, w))"

text \<open>\<^verbatim>\<open>_encode_with_timeout\<close> (lines 729-766).\<close>

definition encode_with_timeout :: "env \<Rightarrow> string \<Rightarrow> int \<Rightarrow> world \<Rightarrow> string option \<times> world" where
  "encode_with_timeout e text_content timeout w0 =
     (let w1 = ensure_embedding_executor w0;
          effective_timeout =
            (if \<not> embedding_warmup_used w1 then timeout + EMBEDDING_STARTUP_BUFFER else timeout);
          w = w1\<lparr>trace := trace w1 @ [Submitted Embedding effective_timeout]\<rparr>
      in case wait_result effective_timeout (embedding_worker e text_content) of
           Result (EncSuccess data) \<Rightarrow> (Some data, w\<lparr>embedding_warmup_used := True\<rparr>)
         | Result (EncError data) \<Rightarrow> (None, w)
         | TimedOut \<Rightarrow> (None, w\<lparr>embedding_executor := None, embedding_warmup_used := False\<rparr>)
         | Raised \<Rightarrow> (None, w))"

text \<open>
  \<^verbatim>\<open>_warmup_process_pools\<close> (lines 791-812): one task for the embedding pool, waited for
  with the startup buffer alone; whatever \<^verbatim>\<open>result\<close> returns counts as warm, whatever it
  raises is logged and dropped. Nothing is submitted to the conversion pool.
\<close>

definition warmup_process_pools :: "env \<Rightarrow> world \<Rightarrow> world" where
  "warmup_process_pools e w0 =
     (let w1 = ensure_embedding_executor w0;
          w = w1\<lparr>trace := trace w1 @ [Submitted Embedding EMBEDDING_STARTUP_BUFFER]\<rparr>
      in case wait_result EMBEDDING_STARTUP_BUFFER (embedding_worker e ''warmup test'') of
           Result r \<Rightarrow> w\<lparr>embedding_warmup_used := True\<rparr>
         | TimedOut \<Rightarrow> w
         | Raised \<Rightarrow> w)"

section \<open>One file: \<^verbatim>\<open>_generate_embedding\<close>\<close>

text \<open>Lines 514-529: an archive whose size cannot be read counts as too big.\<close>

definition archive_too_big :: "env \<Rightarrow> path \<Rightarrow> bool" where
  "archive_too_big e file_path =
     (case stat_size e file_path of
        None \<Rightarrow> MAX_ARCHIVE_SIZE_BYTES + 1 > MAX_ARCHIVE_SIZE_BYTES
      | Some archive_size \<Rightarrow> archive_size > MAX_ARCHIVE_SIZE_BYTES)"

text \<open>Lines 531-544: the in-process conversion of the cheap formats.\<close>

definition inline_conversion :: "env \<Rightarrow> path \<Rightarrow> string option" where
  "inline_conversion e file_path =
     (case markitdown_convert e file_path of
        Success text_content \<Rightarrow> Some text_content
      | Unsupported msg \<Rightarrow> None
      | Error msg \<Rightarrow> None)"

text \<open>
  Lines 509-555: the text of the file, or \<open>None\<close> when the file is to be skipped before
  any snapshot is written.
\<close>

definition convert_file :: "env \<Rightarrow> path \<Rightarrow> int \<Rightarrow> world \<Rightarrow> string option \<times> world" where
  "convert_file e file_path timeout w =
     (let file_ext = lower (name_suffix (basename file_path))
      in if file_ext \<in> ARCHIVE_EXTENSIONS \<and> archive_too_big e file_path then (None, w)
         else
           (case (if file_ext \<in> fast_formats then (inline_conversion e file_path, w)
                  else convert_to_markdown e file_path timeout w) of
              (None, w') \<Rightarrow> (None, w')
            | (Some text_content, w') \<Rightarrow>
                if strip text_content = [] then (None, w') else (Some text_content, w')))"

text \<open>
  The whole method (lines 477-576): \<open>Inl\<close> is an exception that leaves the method,
  \<open>Inr None\<close> the skip, \<open>Inr (Some embedding)\<close> the embedding.
\<close>

definition generate_embedding ::
  "env \<Rightarrow> path \<Rightarrow> path \<Rightarrow> path \<Rightarrow> int \<Rightarrow> world \<Rightarrow> (fatal + string option) \<times> world" where
  "generate_embedding e file_path markdown_dir root_path timeout w =
     (case snapshot_write_path file_path markdown_dir root_path of
        None \<Rightarrow> (Inl SuffixValueError, w)
      | Some markdown_path \<Rightarrow>
          (case mkdir_parents (butlast markdown_path) w of
             None \<Rightarrow> (Inl MkdirFileExists, w)
           | Some w1 \<Rightarrow>
               (case convert_file e file_path timeout w1 of
                  (None, w2) \<Rightarrow> (Inr None, w2)
                | (Some text_content, w2) \<Rightarrow>
                    (case encode_with_timeout e text_content timeout
                            (write_text e markdown_path text_content w2) of
                       (None, w3) \<Rightarrow> (Inr None, w3)
                     | (Some embedding, w3) \<Rightarrow> (Inr (Some embedding), w3)))))"

section \<open>One pass over the table: \<^verbatim>\<open>_update_database\<close>\<close>

type_synonym scan_entry = "path \<times> string \<times> string"

definition notify_progress :: "env \<Rightarrow> path \<Rightarrow> world \<Rightarrow> world" where
  "notify_progress e file_path w =
     (if has_progress_callback e then w\<lparr>trace := trace w @ [Callback file_path]\<rparr> else w)"

definition new_row :: "env \<Rightarrow> path \<Rightarrow> string \<Rightarrow> string \<Rightarrow> string \<Rightarrow> row" where
  "new_row e file_path fhash embedding file_ext =
     \<lparr>file_hash = fhash, embedding_vector = embedding, last_updated = utc_now e file_path,
      file_extension = file_ext\<rparr>"

text \<open>
  \<^verbatim>\<open>sqlite3.connect(embeddings_path)\<close> (line 648) on a store whose file holds the table
  \<open>db\<close>: a new connection sees the rows of the file and has no transaction open.
\<close>

definition sql_connect :: "table \<Rightarrow> world \<Rightarrow> world" where
  "sql_connect db w = w\<lparr>store_file := db, staged := db, in_transaction := False\<rparr>"

text \<open>
  The connection is opened with the module's default transaction control: before an
  \<^verbatim>\<open>INSERT\<close>, \<^verbatim>\<open>UPDATE\<close> or \<^verbatim>\<open>DELETE\<close> the module opens a transaction unless one is open.
\<close>

definition sql_begin :: "world \<Rightarrow> world" where
  "sql_begin w =
     (if in_transaction w then w
      else w\<lparr>in_transaction := True, journal := journal w @ [TxnBegin]\<rparr>)"

text \<open>
  \<^verbatim>\<open>INSERT INTO embeddings ...\<close>: the primary key refuses a second row for a path. The
  statement works on the rows of the connection.
\<close>

definition sql_insert :: "path \<Rightarrow> row \<Rightarrow> world \<Rightarrow> fatal option \<times> world" where
  "sql_insert file_path r w0 =
     (let w = sql_begin w0
      in if file_path \<in> fst ` set (staged w) then (Some IntegrityError, w)
         else (None, w\<lparr>staged := staged w @ [(file_path, r)],
                        trace := trace w @ [Inserted file_path],
                        journal := journal w @ [Executed (Insert file_path r)]\<rparr>))"

text \<open>\<^verbatim>\<open>UPDATE embeddings SET ... WHERE file_path = ?\<close>.\<close>

definition sql_update :: "path \<Rightarrow> row \<Rightarrow> world \<Rightarrow> world" where
  "sql_update file_path r w0 =
     (let w = sql_begin w0
      in w\<lparr>staged := map (\<lambda>(p, old). if p = file_path then (p, r) else (p, old)) (staged w),
            trace := trace w @ [Updated file_path],
            journal := journal w @ [Executed (Update file_path r)]\<rparr>)"

text \<open>\<^verbatim>\<open>DELETE FROM embeddings WHERE file_path = ?\<close>.\<close>

definition sql_delete :: "path \<Rightarrow> world \<Rightarrow> world" where
  "sql_delete file_path w0 =
     (let w = sql_begin w0
      in w\<lparr>staged := filter (\<lambda>r. fst r \<noteq> file_path) (staged w),
            trace := trace w @ [Deleted file_path],
            journal := journal w @ [Executed (Delete file_path)]\<rparr>)"

text \<open>
  \<^verbatim>\<open>conn.commit()\<close>: without an open transaction it does nothing; otherwise the
  \<^verbatim>\<open>COMMIT\<close> either raises \<^verbatim>\<open>sqlite3.Error\<close> and leaves the transaction open, or writes the
  rows of the connection to the file and ends the transaction.
\<close>

definition sql_commit :: "env \<Rightarrow> world \<Rightarrow> fatal option \<times> world" where
  "sql_commit e w =
     (if \<not> in_transaction w then (None, w)
      else if commit_fails e then (Some StoreCommitError, w)
      else (None, w\<lparr>store_file := staged w, in_transaction := False,
                     journal := journal w @ [TxnCommit]\<rparr>))"

text \<open>
  \<^verbatim>\<open>conn.rollback()\<close>: the statements of the open transaction are undone, the connection
  sees the rows of the file again.
\<close>

definition sql_rollback :: "world \<Rightarrow> world" where
  "sql_rollback w =
     (if in_transaction w
      then w\<lparr>staged := store_file w, in_transaction := False,
             journal := journal w @ [TxnRollback]\<rparr>
      else w)"

text \<open>\<^verbatim>\<open>conn.close()\<close>: a transaction still open is lost with the connection.\<close>

definition sql_close :: "world \<Rightarrow> world" where
  "sql_close w = sql_rollback w"

text \<open>
  Lines 670-717, one iteration. The hashes are those loaded before the loop
  (\<open>db_file_hashes\<close>), not the staged ones. The callback comes before the statement.
\<close>

definition process_file ::
  "env \<Rightarrow> (path \<rightharpoonup> string) \<Rightarrow> path \<Rightarrow> path \<Rightarrow> int \<Rightarrow> scan_entry \<Rightarrow> world \<Rightarrow> fatal option \<times> world" where
  "process_file e db_file_hashes markdown_dir root_path conversion_timeout entry w =
     (case entry of (file_path, fhash, file_ext) \<Rightarrow>
        (case db_file_hashes file_path of
           None \<Rightarrow>
             (case generate_embedding e file_path markdown_dir root_path conversion_timeout w of
                (Inl err, w1) \<Rightarrow> (Some err, w1)
              | (Inr None, w1) \<Rightarrow> (None, w1)
              | (Inr (Some embedding), w1) \<Rightarrow>
                  sql_insert file_path (new_row e file_path fhash embedding file_ext)
                    (notify_progress e file_path w1))
         | Some db_hash \<Rightarrow>
             if db_hash \<noteq> fhash then
               (case generate_embedding e file_path markdown_dir root_path conversion_timeout w of
                  (Inl err, w1) \<Rightarrow> (Some err, w1)
                | (Inr None, w1) \<Rightarrow> (None, w1)
                | (Inr (Some embedding), w1) \<Rightarrow>
                    (None, sql_update file_path (new_row e file_path fhash embedding file_ext)
                             (notify_progress e file_path w1)))
             else (None, w)))"

fun process_files ::
  "env \<Rightarrow> (path \<rightharpoonup> string) \<Rightarrow> path \<Rightarrow> path \<Rightarrow> int \<Rightarrow> scan_entry list \<Rightarrow> world \<Rightarrow> fatal option \<times> world" where
  "process_files e hs markdown_dir root_path t [] w = (None, w)"
| "process_files e hs markdown_dir root_path t (entry # rest) w =
     (case process_file e hs markdown_dir root_path t entry w of
        (Some err, w') \<Rightarrow> (Some err, w')
      | (None, w') \<Rightarrow> process_files e hs markdown_dir root_path t rest w')"

text \<open>
  Lines 659-664: the rows of the files that are no longer scanned. Python iterates over
  the set of these paths in no fixed order; the model takes them in the table's order.
\<close>

fun remove_missing :: "env \<Rightarrow> path \<Rightarrow> path \<Rightarrow> path list \<Rightarrow> world \<Rightarrow> fatal option \<times> world" where
  "remove_missing e markdown_dir root_path [] w = (None, w)"
| "remove_missing e markdown_dir root_path (file_path # rest) w =
     (case delete_markdown_snapshot e file_path markdown_dir root_path (sql_delete file_path w) of
        Inl err \<Rightarrow> (Some err, sql_delete file_path w)
      | Inr w' \<Rightarrow> remove_missing e markdown_dir root_path rest w')"

definition files_to_remove :: "table \<Rightarrow> scan_entry list \<Rightarrow> path list" where
  "files_to_remove db file_list =
     filter (\<lambda>p. p \<notin> set (map fst file_list)) (remdups (map fst db))"

definition load_hashes :: "table \<Rightarrow> (path \<rightharpoonup> string)" where
  "load_hashes db = map_of (map (\<lambda>(p, r). (p, file_hash r)) db)"

text \<open>
  Lines 719-728: the commit; when it raises, the rollback and the same exception again;
  in both cases the close.
\<close>

definition commit_and_close :: "env \<Rightarrow> world \<Rightarrow> fatal option \<times> world" where
  "commit_and_close e w =
     (case sql_commit e w of
        (Some err, w1) \<Rightarrow> (Some err, sql_close (sql_rollback w1))
      | (None, w1) \<Rightarrow> (None, sql_close w1))"

text \<open>
  Lines 648-717, all that comes before the commit: the connection is opened on a store
  whose file holds the table \<open>db\<close>, the hashes are read through it, the rows of the
  missing files are deleted, the embedding pool is warmed up, and the scanned files are
  processed. An exception ends it at once.
\<close>

definition stage_changes ::
  "env \<Rightarrow> table \<Rightarrow> scan_entry list \<Rightarrow> path \<Rightarrow> path \<Rightarrow> int \<Rightarrow> world \<Rightarrow> fatal option \<times> world" where
  "stage_changes e db file_list markdown_dir root_path conversion_timeout w0 =
     (let w = sql_connect db w0;
          db_file_hashes = load_hashes (staged w)
      in case remove_missing e markdown_dir root_path
                (files_to_remove (staged w) file_list) w of
           (Some err, w1) \<Rightarrow> (Some err, w1)
         | (None, w1) \<Rightarrow>
             process_files e db_file_hashes markdown_dir root_path conversion_timeout
               file_list (warmup_process_pools e w1))"

text \<open>
  The whole method (lines 628-728). \<open>db\<close> is the table in the store's file when the
  connection is opened. The result is the exception that left the method, if any, the
  table that is in the store's file when the method is left, and the world. An exception
  of the deletions or of the loop leaves the method at once: nothing commits, rolls back
  or closes the connection on that way.
\<close>

definition update_database ::
  "env \<Rightarrow> table \<Rightarrow> scan_entry list \<Rightarrow> path \<Rightarrow> path \<Rightarrow> int \<Rightarrow> world \<Rightarrow> fatal option \<times> table \<times> world" where
  "update_database e db file_list markdown_dir root_path conversion_timeout w0 =
     (case stage_changes e db file_list markdown_dir root_path conversion_timeout w0 of
        (Some err, w2) \<Rightarrow> (Some err, store_file w2, w2)
      | (None, w2) \<Rightarrow>
          (case commit_and_close e w2 of
             (err, w3) \<Rightarrow> (err, store_file w3, w3)))"

section \<open>Reading the store's journal\<close>

text \<open>The statements of a journal, in order.\<close>

fun executed :: "sql_event list \<Rightarrow> statement list" where
  "executed [] = []"
| "executed (Executed s # j) = s # executed j"
| "executed (ev # j) = executed j"

text \<open>
  What a statement does to a table, by the meaning of SQL on a table keyed by the path,
  and a list of statements applied in order. An \<^verbatim>\<open>INSERT\<close> that is in a journal was
  executed, so its key was new.
\<close>

fun apply_statement :: "statement \<Rightarrow> table \<Rightarrow> table" where
  "apply_statement (Insert p r) t = t @ [(p, r)]"
| "apply_statement (Update p r) t = map (\<lambda>kv. if fst kv = p then (p, r) else kv) t"
| "apply_statement (Delete p) t = filter (\<lambda>kv. fst kv \<noteq> p) t"

definition replay :: "statement list \<Rightarrow> table \<Rightarrow> table" where
  "replay stmts t = foldl (\<lambda>acc s. apply_statement s acc) t stmts"

text \<open>
  A journal that holds at most one transaction: nothing at all, or one \<^verbatim>\<open>BEGIN\<close>, then
  statements only, then at most one \<^verbatim>\<open>COMMIT\<close> or \<^verbatim>\<open>ROLLBACK\<close>, which is the last entry.
\<close>

fun statements_then_end :: "sql_event list \<Rightarrow> bool" where
  "statements_then_end [] = True"
| "statements_then_end [TxnCommit] = True"
| "statements_then_end [TxnRollback] = True"
| "statements_then_end (Executed s # j) = statements_then_end j"
| "statements_then_end (ev # j) = False"

fun one_transaction :: "sql_event list \<Rightarrow> bool" where
  "one_transaction [] = True"
| "one_transaction (TxnBegin # j) = statements_then_end j"
| "one_transaction (ev # j) = False"

text \<open>What the store and the connection hold of a world.\<close>

definition txn_view :: "world \<Rightarrow> table \<times> table \<times> bool \<times> sql_event list" where
  "txn_view w = (store_file w, staged w, in_transaction w, journal w)"

text \<open>
  The state of a pass that has not reached its commit, on a store whose file held \<open>db\<close>
  and whose journal was \<open>j0\<close> when the connection was opened: the file still holds \<open>db\<close>;
  either no statement was executed, or the journal got one \<^verbatim>\<open>BEGIN\<close> and the statements
  executed since, and the connection sees \<open>db\<close> with these statements applied.
\<close>

definition pass_open :: "table \<Rightarrow> sql_event list \<Rightarrow> statement list \<Rightarrow> world \<Rightarrow> bool" where
  "pass_open db j0 stmts w =
     (store_file w = db \<and> staged w = replay stmts db
      \<and> (if in_transaction w then journal w = j0 @ TxnBegin # map Executed stmts
          else stmts = [] \<and> journal w = j0))"

section \<open>Reading a trace\<close>

text \<open>The events of the pools, as opposed to the callback and the statements.\<close>

fun is_pool_event :: "event \<Rightarrow> bool" where
  "is_pool_event (PoolCreated k) = True"
| "is_pool_event (Submitted k t) = True"
| "is_pool_event _ = False"

text \<open>\<open>tr'\<close> continues \<open>tr\<close> with events of the pools only.\<close>

definition pool_ext :: "event list \<Rightarrow> event list \<Rightarrow> bool" where
  "pool_ext tr tr' = (prefix tr tr' \<and> list_all is_pool_event (drop (length tr) tr'))"

text \<open>The paths the callback was invoked with, and the paths of the rows written, in order.\<close>

fun callback_paths :: "event list \<Rightarrow> path list" where
  "callback_paths [] = []"
| "callback_paths (Callback p # tr) = p # callback_paths tr"
| "callback_paths (ev # tr) = callback_paths tr"

fun indexed_paths :: "event list \<Rightarrow> path list" where
  "indexed_paths [] = []"
| "indexed_paths (Inserted p # tr) = p # indexed_paths tr"
| "indexed_paths (Updated p # tr) = p # indexed_paths tr"
| "indexed_paths (ev # tr) = indexed_paths tr"

text \<open>
  The order the specification states: whenever the callback is invoked with a path, the
  \<^verbatim>\<open>INSERT\<close> or \<^verbatim>\<open>UPDATE\<close> of that path has been executed before (\<open>seen\<close> collects the
  paths already written).
\<close>

fun callbacks_follow_staging :: "path list \<Rightarrow> event list \<Rightarrow> bool" where
  "callbacks_follow_staging seen [] = True"
| "callbacks_follow_staging seen (Callback p # tr) = (p \<in> set seen \<and> callbacks_follow_staging seen tr)"
| "callbacks_follow_staging seen (Inserted p # tr) = callbacks_follow_staging (p # seen) tr"
| "callbacks_follow_staging seen (Updated p # tr) = callbacks_follow_staging (p # seen) tr"
| "callbacks_follow_staging seen (ev # tr) = callbacks_follow_staging seen tr"

text \<open>
  The order the code has: every invocation of the callback is followed at once by the
  \<^verbatim>\<open>INSERT\<close> or \<^verbatim>\<open>UPDATE\<close> of the same path, and no row is written without it.
\<close>

fun staging_follows_callback :: "event list \<Rightarrow> bool" where
  "staging_follows_callback [] = True"
| "staging_follows_callback (Callback p # Inserted q # tr) = (p = q \<and> staging_follows_callback tr)"
| "staging_follows_callback (Callback p # Updated q # tr) = (p = q \<and> staging_follows_callback tr)"
| "staging_follows_callback (Callback p # tr) = False"
| "staging_follows_callback (Inserted p # tr) = False"
| "staging_follows_callback (Updated p # tr) = False"
| "staging_follows_callback (ev # tr) = staging_follows_callback tr"

section \<open>The failures of one file, read off the collaborators\<close>

text \<open>
  The reasons for which the specification has a file skipped: an archive over the size
  limit, a conversion that reports an unsupported format or an error or times out, a
  text that is empty or whitespace only, an encoding that reports an error or times out.
  \<open>skip_cause\<close> names the reason from what the collaborators do and from the warm flags
  of the two pools alone; \<open>None\<close> means that conversion and encoding both succeed.
\<close>

datatype skip_cause =
    OversizedArchive | UnsupportedFormat | ConversionError | ConversionTimeout
  | EmptyText | EmbeddingError | EmbeddingTimeout

definition conversion_attempt :: "env \<Rightarrow> path \<Rightarrow> int \<Rightarrow> world \<Rightarrow> conv_status waited" where
  "conversion_attempt e file_path timeout w =
     (if lower (name_suffix (basename file_path)) \<in> fast_formats
      then Result (markitdown_convert e file_path)
      else wait_result
             (if conversion_warmup_used w then timeout else timeout + CONVERSION_STARTUP_BUFFER)
             (conversion_worker e file_path))"

definition embedding_attempt :: "env \<Rightarrow> string \<Rightarrow> int \<Rightarrow> world \<Rightarrow> enc_status waited" where
  "embedding_attempt e text_content timeout w =
     wait_result
       (if embedding_warmup_used w then timeout else timeout + EMBEDDING_STARTUP_BUFFER)
       (embedding_worker e text_content)"

definition skip_cause :: "env \<Rightarrow> path \<Rightarrow> int \<Rightarrow> world \<Rightarrow> skip_cause option" where
  "skip_cause e file_path timeout w =
     (if lower (name_suffix (basename file_path)) \<in> ARCHIVE_EXTENSIONS
         \<and> (case stat_size e file_path of None \<Rightarrow> True | Some n \<Rightarrow> n > MAX_ARCHIVE_SIZE_BYTES)
      then Some OversizedArchive
      else
        (case conversion_attempt e file_path timeout w of
           Result (Unsupported msg) \<Rightarrow> Some UnsupportedFormat
         | Result (Error msg) \<Rightarrow> Some ConversionError
         | TimedOut \<Rightarrow> Some ConversionTimeout
         | Raised \<Rightarrow> Some ConversionError
         | Result (Success text_content) \<Rightarrow>
             if strip text_content = [] then Some EmptyText
             else
               (case embedding_attempt e text_content timeout w of
                  Result (EncSuccess v) \<Rightarrow> None
                | Result (EncError msg) \<Rightarrow> Some EmbeddingError
                | TimedOut \<Rightarrow> Some EmbeddingTimeout
                | Raised \<Rightarrow> Some EmbeddingError)))"

section \<open>The excerpt loader: \<^verbatim>\<open>HelpChat._load_markdown_excerpt\<close>\<close>

text \<open>
  A code point of the snapshot's text or of the excerpt: one of the first 256, or the
  ellipsis U+2026 that the loader adds. The ellipsis is neither whitespace nor a word
  character and has no lower case.
\<close>

datatype uchar = Ch char | Ellipsis

type_synonym utext = "uchar list"









text \<open>\<^verbatim>\<open>str.find\<close>: the lowest index where \<open>sub\<close> starts, \<open>None\<close> for Python's \<open>-1\<close>.\<close>

fun find_sub :: "utext \<Rightarrow> utext \<Rightarrow> nat option" where
  "find_sub [] sub = (if sub = [] then Some 0 else None)"
| "find_sub (c # cs) sub =
     (if prefix sub (c # cs) then Some 0 else map_option Suc (find_sub cs sub))"








section \<open>Example inputs\<close>

text \<open>
  A workspace \<^verbatim>\<open>/tmp/work\<close>, a root \<^verbatim>\<open>/data/docs\<close>, and collaborators that convert and
  embed every file in a second or two, except that the conversion worker hangs on
  \<^verbatim>\<open>slow.pdf\<close>. The caller passes a progress callback.
\<close>

definition example_markdown_dir :: path where
  "example_markdown_dir = [''tmp'', ''work'', ''_markdown'']"

definition example_root :: path where
  "example_root = [''data'', ''docs'']"

definition example_env :: env where
  "example_env =
     \<lparr>stat_size = (\<lambda>p. Some 10),
      markitdown_convert = (\<lambda>p. Success ''hello''),
      conversion_worker =
        (\<lambda>p. if basename p = ''slow.pdf'' then Hang else Finished 1 (Success ''page one'')),
      embedding_worker = (\<lambda>t. Finished 2 (EncSuccess ''vec'')),
      utc_now = (\<lambda>p. 7),
      io_fails = (\<lambda>p. False),
      commit_fails = False,
      has_progress_callback = True\<rparr>"

text \<open>
  A store that already holds a row for \<^verbatim>\<open>/data/docs/slow.pdf\<close>, and an indexer whose
  connection sees that row.
\<close>

definition example_table :: table where
  "example_table =
     [([''data'', ''docs'', ''slow.pdf''],
       \<lparr>file_hash = ''h0'', embedding_vector = ''old'', last_updated = 3,
        file_extension = ''.pdf''\<rparr>)]"

definition example_world :: world where
  "example_world = (init_world example_markdown_dir)\<lparr>staged := example_table\<rparr>"

text \<open>
  Two passes of one indexer over the same store and workspace: the first indexes
  \<^verbatim>\<open>/data/docs/a.txt\<close> under the root \<^verbatim>\<open>/data/docs\<close>; the second runs after the root was
  changed to \<^verbatim>\<open>/data/new\<close>, where nothing is scanned. \<^verbatim>\<open>reindex\<close> drops both executors
  after a pass (lines 249-251).
\<close>

definition first_pass :: "fatal option \<times> table \<times> world" where
  "first_pass =
     update_database example_env [] [([''data'', ''docs'', ''a.txt''], ''h1'', ''.txt'')]
       example_markdown_dir example_root 5 (init_world example_markdown_dir)"

definition second_pass :: "fatal option \<times> table \<times> world" where
  "second_pass =
     update_database example_env (fst (snd first_pass)) []
       example_markdown_dir [''data'', ''new''] 5
       (shutdown_embedding_executor (shutdown_conversion_executor (snd (snd first_pass))))"

section \<open>Properties of the temp workspace\<close>

lemma filter_length_less:
  "\<exists>x \<in> set xs. \<not> P x \<Longrightarrow> length (filter P xs) \<noteq> length xs"
  using length_filter_less [of _ xs P] by fastforce

text \<open>
  Claim C7. When \<open>temp_path\<close> is an existing directory without the sentinel and with some
  entry that is not the legacy debug log, \<^verbatim>\<open>_prepare_temp_path\<close> fails with the
  unmanaged-directory error and leaves the directory exactly as it found it.
\<close>

theorem prepare_unmanaged_refused:
  assumes "\<not> path_exists existing_items sentinel_name"
    and "\<exists>e \<in> set existing_items. fst e \<noteq> LOG_FILE_NAME"
  shows "prepare_temp_path rm_fails temp_path embeddings_path (TempDir existing_items)
         = (Inl UnmanagedDirectory, TempDir existing_items)"
proof -
  from assms(2) have "\<exists>x \<in> set (map fst existing_items). \<not> (x = LOG_FILE_NAME)"
    by auto
  then have "length (filter (\<lambda>item. item = LOG_FILE_NAME) (map fst existing_items))
             \<noteq> length (map fst existing_items)"
    by (rule filter_length_less)
  with assms(1) show ?thesis
    by simp
qed

theorem prepare_unmanaged_refused_witness:
  "prepare_temp_path (\<lambda>_. False) [''tmp'', ''work''] [''var'', ''embeddings.db'']
     (TempDir [(''notes.txt'', RegFile), (''program_debug.log'', RegFile)])
   = (Inl UnmanagedDirectory,
      TempDir [(''notes.txt'', RegFile), (''program_debug.log'', RegFile)])"
  using prepare_unmanaged_refused
    [of "[(''notes.txt'', RegFile), (''program_debug.log'', RegFile)]"
        "\<lambda>_. False" "[''tmp'', ''work'']" "[''var'', ''embeddings.db'']"]
  by (simp add: path_exists_def sentinel_name_def LOG_FILE_NAME_def)

text \<open>
  What a successful call leaves in a managed workspace, in general: the cleanup keeps
  exactly the entries that \<open>survives_cleanup\<close> names, and \<^verbatim>\<open>_markdown\<close> is created when
  it is missing. When nothing refuses to be removed and the store is a direct child of
  \<open>temp_path\<close>, these are the sentinel, \<^verbatim>\<open>_markdown\<close> and the store's file.
\<close>

lemma cleanup_item_filter:
  assumes "distinct (map fst es)"
  shows "cleanup_item rm_fails protected es item
           = filter (\<lambda>en. fst en \<noteq> item \<or> survives_cleanup rm_fails protected en) es"
proof (cases "map_of es item")
  case None
  then have "item \<notin> fst ` set es"
    by (simp add: map_of_eq_None_iff)
  then have "filter (\<lambda>en. fst en \<noteq> item \<or> survives_cleanup rm_fails protected en) es = es"
    by (auto simp: filter_id_conv)
  with None show ?thesis
    by (auto simp: cleanup_item_def os_unlink_def)
next
  case (Some n)
  have only: "\<And>en. en \<in> set es \<Longrightarrow> fst en = item \<Longrightarrow> en = (item, n)"
    using assms Some by (metis map_of_eq_Some_iff option.inject prod.collapse)
  show ?thesis
  proof (cases "survives_cleanup rm_fails protected (item, n)")
    case True
    have "filter (\<lambda>en. fst en \<noteq> item \<or> survives_cleanup rm_fails protected en) es = es"
      unfolding filter_id_conv using only True by metis
    moreover have "cleanup_item rm_fails protected es item = es"
      using True Some
      by (auto simp: cleanup_item_def survives_cleanup_def os_unlink_def
          split: node.splits option.splits if_splits)
    ultimately show ?thesis by simp
  next
    case False
    have "filter (\<lambda>en. fst en \<noteq> item \<or> survives_cleanup rm_fails protected en) es
            = filter (\<lambda>en. fst en \<noteq> item) es"
      by (rule filter_cong) (use only False in auto)
    moreover have "cleanup_item rm_fails protected es item = remove_entry item es"
      using False Some
      by (auto simp: cleanup_item_def survives_cleanup_def os_unlink_def
          split: node.splits option.splits if_splits)
    ultimately show ?thesis by (simp add: remove_entry_def)
  qed
qed

lemma cleanup_fold_filter:
  "distinct (map fst es) \<Longrightarrow>
   foldl (cleanup_item rm_fails protected) es names
     = filter (\<lambda>en. fst en \<notin> set names \<or> survives_cleanup rm_fails protected en) es"
proof (induction names arbitrary: es)
  case Nil
  then show ?case by simp
next
  case (Cons item names)
  let ?es' = "filter (\<lambda>en. fst en \<noteq> item \<or> survives_cleanup rm_fails protected en) es"
  have d: "distinct (map fst ?es')"
    using Cons.prems by (rule distinct_map_filter)
  have "foldl (cleanup_item rm_fails protected) es (item # names)
          = foldl (cleanup_item rm_fails protected) ?es' names"
    using cleanup_item_filter [OF Cons.prems] by simp
  also have "\<dots> = filter (\<lambda>en. fst en \<notin> set names \<or> survives_cleanup rm_fails protected en) ?es'"
    by (rule Cons.IH [OF d])
  also have "\<dots> = filter (\<lambda>en. fst en \<notin> set (item # names)
                                \<or> survives_cleanup rm_fails protected en) es"
    by (auto intro: filter_cong)
  finally show ?case .
qed

lemma cleanup_loop_survivors:
  assumes "distinct (map fst es)"
  shows "cleanup_loop rm_fails protected es = filter (survives_cleanup rm_fails protected) es"
proof -
  have "filter (\<lambda>en. fst en \<notin> set (map fst es) \<or> survives_cleanup rm_fails protected en) es
          = filter (survives_cleanup rm_fails protected) es"
    by (rule filter_cong) auto
  then show ?thesis
    using cleanup_fold_filter [OF assms] by (simp add: cleanup_loop_def)
qed

lemma prepare_managed_survivors:
  assumes "path_exists es sentinel_name" and "distinct (map fst es)"
  shows "prepare_temp_path rm_fails temp_path embeddings_path (TempDir es) =
     (case makedirs_markdown
             (filter (survives_cleanup rm_fails (embeddings_basename temp_path embeddings_path)) es) of
        Inl err \<Rightarrow> (Inl err, TempDir
             (filter (survives_cleanup rm_fails (embeddings_basename temp_path embeddings_path)) es))
      | Inr es' \<Rightarrow> (Inr (), TempDir es'))"
  using assms by (simp add: finish_prepare_def cleanup_loop_survivors Let_def)

text \<open>
  Claim C8, evaluated where the code departs from it. The workspace \<^verbatim>\<open>/tmp/work\<close> is
  managed (sentinel present) and the vector store is \<^verbatim>\<open>/tmp/work/data/embeddings.db\<close>,
  inside \<open>temp_path\<close> one directory down. \<^verbatim>\<open>_prepare_temp_path\<close> succeeds, protects
  only a top-level entry named \<^verbatim>\<open>embeddings.db\<close>, and removes the directory \<^verbatim>\<open>data\<close>
  with the store in it: the store's file is there before the call and gone after it.
\<close>

theorem prepare_nested_store_removed:
  "prepare_temp_path (\<lambda>_. False) [''tmp'', ''work''] [''tmp'', ''work'', ''data'', ''embeddings.db'']
     (TempDir [(''.help_chat_temp'', RegFile), (''_markdown'', Directory []),
               (''data'', Directory [(''embeddings.db'', RegFile)])])
   = (Inr (), TempDir [(''.help_chat_temp'', RegFile), (''_markdown'', Directory [])])
   \<and> lookup_path [(''.help_chat_temp'', RegFile), (''_markdown'', Directory []),
                   (''data'', Directory [(''embeddings.db'', RegFile)])]
         [''data'', ''embeddings.db''] = Some RegFile
   \<and> lookup_path (listing_of (snd (prepare_temp_path (\<lambda>_. False) [''tmp'', ''work'']
           [''tmp'', ''work'', ''data'', ''embeddings.db'']
           (TempDir [(''.help_chat_temp'', RegFile), (''_markdown'', Directory []),
                     (''data'', Directory [(''embeddings.db'', RegFile)])]))))
         [''data'', ''embeddings.db''] = None"
  by (simp add: path_exists_def sentinel_name_def markdown_name_def LOG_FILE_NAME_def
      finish_prepare_def cleanup_loop_def cleanup_item_def embeddings_basename_def
      basename_def makedirs_markdown_def remove_entry_def os_unlink_def)

section \<open>Properties of the worker pools\<close>

lemma convert_trace:
  "trace (snd (convert_to_markdown e p t w)) =
     trace (ensure_conversion_executor w) @
       [Submitted Conversion (if conversion_warmup_used w then t else t + CONVERSION_STARTUP_BUFFER)]"
  by (simp add: convert_to_markdown_def ensure_conversion_executor_def Let_def
      split: waited.split conv_status.split)




lemma encode_trace:
  "trace (snd (encode_with_timeout e txt t w)) =
     trace (ensure_embedding_executor w) @
       [Submitted Embedding (if embedding_warmup_used w then t else t + EMBEDDING_STARTUP_BUFFER)]"
  by (simp add: encode_with_timeout_def ensure_embedding_executor_def Let_def
      split: waited.split enc_status.split)









text \<open>
  Claim C5, evaluated on the code. \<^verbatim>\<open>_warmup_process_pools\<close> submits its one task to the
  embedding pool and leaves the conversion pool as it was: no handle, no task, warm flag
  unchanged, whatever the collaborators do. In a pass of a fresh indexer over
  \<^verbatim>\<open>/data/docs/a.pdf\<close> the conversion pool is created only when the file is converted,
  and that first conversion is waited for with the cold budget of 5 + 15 seconds.
\<close>

theorem warmup_skips_conversion_pool:
  "conversion_executor (warmup_process_pools e w) = conversion_executor w
   \<and> conversion_warmup_used (warmup_process_pools e w) = conversion_warmup_used w
   \<and> trace (warmup_process_pools e w) =
       trace (ensure_embedding_executor w) @ [Submitted Embedding EMBEDDING_STARTUP_BUFFER]
   \<and> trace (snd (snd (update_database example_env []
        [([''data'', ''docs'', ''a.pdf''], ''h1'', ''.pdf'')]
        example_markdown_dir example_root 5 (init_world example_markdown_dir))))
     = [PoolCreated Embedding, Submitted Embedding 20,
        PoolCreated Conversion, Submitted Conversion 20,
        Submitted Embedding 5,
        Callback [''data'', ''docs'', ''a.pdf''], Inserted [''data'', ''docs'', ''a.pdf'']]"
proof (intro conjI)
  show "trace (snd (snd (update_database example_env []
        [([''data'', ''docs'', ''a.pdf''], ''h1'', ''.pdf'')]
        example_markdown_dir example_root 5 (init_world example_markdown_dir))))
     = [PoolCreated Embedding, Submitted Embedding 20,
        PoolCreated Conversion, Submitted Conversion 20,
        Submitted Embedding 5,
        Callback [''data'', ''docs'', ''a.pdf''], Inserted [''data'', ''docs'', ''a.pdf'']]"
    by code_simp
qed (simp_all add: warmup_process_pools_def ensure_embedding_executor_def Let_def
       split: waited.split)

section \<open>Properties of the snapshot store\<close>

text \<open>
  Inside the root the write path and the delete path agree: the snapshot of a source is
  the markdown directory, the source's path relative to the root, and \<^verbatim>\<open>.md\<close> appended
  to the file name. Deleting the snapshot of such a source removes that one file, and
  the only directories that go are ancestors of the snapshot strictly below the markdown
  directory.
\<close>

lemma name_suffix_append: "take (length name - length (name_suffix name)) name @ name_suffix name = name"
  by (auto simp: name_suffix_def split: option.split)

lemma with_suffix_md:
  assumes "basename p = basename src" and "basename src \<noteq> []"
  shows "with_suffix p (md_suffix src) = Some (butlast p @ [basename src @ ''.md''])"
proof (cases "name_suffix (basename src) = []")
  case True
  with assms show ?thesis
    by (simp add: with_suffix_def md_suffix_def Let_def)
next
  case False
  have "take (length (basename src) - length (name_suffix (basename src))) (basename src)
          @ name_suffix (basename src) @ ''.md'' = basename src @ ''.md''"
    using name_suffix_append [of "basename src"] by (metis append.assoc)
  with False assms show ?thesis
    by (simp add: with_suffix_def md_suffix_def Let_def)
qed

lemma snapshot_paths_agree_inside_root:
  assumes "strict_prefix root_path file_path" and "last file_path \<noteq> []"
  shows "snapshot_write_path file_path markdown_dir root_path
           = Some (markdown_dir @ butlast (drop (length root_path) file_path)
                     @ [last file_path @ ''.md''])
         \<and> snapshot_delete_path file_path markdown_dir root_path
           = Snapshot (markdown_dir @ butlast (drop (length root_path) file_path)
                     @ [last file_path @ ''.md''])"
proof -
  from assms(1) obtain rel where rel: "file_path = root_path @ rel" "rel \<noteq> []"
    by (auto simp: strict_prefix_def prefix_def)
  then have r: "relative_to file_path root_path = Some rel"
    by (simp add: relative_to_def)
  have fp: "file_path \<noteq> []" "last file_path = last rel" "basename file_path = last rel"
    using rel by (simp_all add: basename_def)
  have b: "basename (markdown_dir @ rel) = basename file_path"
    using rel fp by (simp add: basename_def)
  have w: "with_suffix (markdown_dir @ rel) (md_suffix file_path)
             = Some (butlast (markdown_dir @ rel) @ [basename file_path @ ''.md''])"
    using with_suffix_md [OF b] assms(2) fp by simp
  have bl: "butlast (markdown_dir @ rel) = markdown_dir @ butlast rel"
    using rel by (simp add: butlast_append)
  show ?thesis
    using r w bl fp rel
    by (simp add: snapshot_write_path_def snapshot_delete_path_def Let_def)
qed

lemma prune_frame:
  "snap_files (prune_empty_markdown_dirs e c m w) = snap_files w
   \<and> staged (prune_empty_markdown_dirs e c m w) = staged w
   \<and> snap_dirs (prune_empty_markdown_dirs e c m w) \<subseteq> snap_dirs w
   \<and> (\<forall>d \<in> snap_dirs w - snap_dirs (prune_empty_markdown_dirs e c m w).
         strict_prefix m d \<and> prefix d c)"
proof (induction e c m w rule: prune_empty_markdown_dirs.induct)
  case (1 e c m w)
  show ?case
  proof (cases "m \<noteq> c \<and> strict_prefix m c")
    case False
    then have "prune_empty_markdown_dirs e c m w = w"
      by (subst prune_empty_markdown_dirs.simps) auto
    then show ?thesis by simp
  next
    case True
    show ?thesis
    proof (cases "rmdir e c w")
      case None
      have "prune_empty_markdown_dirs e c m w = w"
        using True None by (subst prune_empty_markdown_dirs.simps) simp
      then show ?thesis by simp
    next
      case (Some w')
      have step: "prune_empty_markdown_dirs e c m w = prune_empty_markdown_dirs e (butlast c) m w'"
        using True Some by (subst prune_empty_markdown_dirs.simps) simp
      have w': "w' = w\<lparr>snap_dirs := snap_dirs w - {c}\<rparr>"
        using Some by (simp add: rmdir_def split: if_splits)
      have ih: "snap_files (prune_empty_markdown_dirs e (butlast c) m w') = snap_files w'
          \<and> staged (prune_empty_markdown_dirs e (butlast c) m w') = staged w'
          \<and> snap_dirs (prune_empty_markdown_dirs e (butlast c) m w') \<subseteq> snap_dirs w'
          \<and> (\<forall>d \<in> snap_dirs w' - snap_dirs (prune_empty_markdown_dirs e (butlast c) m w').
                strict_prefix m d \<and> prefix d (butlast c))"
        using "1.IH" [OF True Some] .
      have up: "\<And>d. prefix d (butlast c) \<Longrightarrow> prefix d c"
        by (metis prefix_order.order_trans prefixeq_butlast)
      show ?thesis
        unfolding step using ih True up by (auto simp: w')
    qed
  qed
qed

lemma delete_markdown_snapshot_inside_root:
  assumes "strict_prefix root_path file_path" and "last file_path \<noteq> []"
    and "snapshot = markdown_dir @ butlast (drop (length root_path) file_path)
                      @ [last file_path @ ''.md'']"
    and "snapshot \<in> fst ` set (snap_files w)" and "\<not> io_fails e snapshot"
  shows "\<exists>w'. delete_markdown_snapshot e file_path markdown_dir root_path w = Inr w'
           \<and> map_of (snap_files w') = (map_of (snap_files w))(snapshot := None)
           \<and> staged w' = staged w
           \<and> snap_dirs w' \<subseteq> snap_dirs w
           \<and> (\<forall>d \<in> snap_dirs w - snap_dirs w'.
                 strict_prefix markdown_dir d \<and> prefix d (butlast snapshot))"
proof -
  have p: "snapshot_delete_path file_path markdown_dir root_path = Snapshot snapshot"
    using snapshot_paths_agree_inside_root [OF assms(1,2)] assms(3) by simp
  let ?w1 = "w\<lparr>snap_files := AList.delete snapshot (snap_files w)\<rparr>"
  have d: "delete_markdown_snapshot e file_path markdown_dir root_path w
             = Inr (prune_empty_markdown_dirs e (butlast snapshot) markdown_dir ?w1)"
    using p assms(4,5) by (simp add: delete_markdown_snapshot_def)
  show ?thesis
    unfolding d using prune_frame [of e "butlast snapshot" markdown_dir ?w1]
    by (simp add: AList.delete_conv')
qed

text \<open>
  Claim C9, evaluated on the code. For the source \<^verbatim>\<open>/data/other/a.txt\<close>, outside the root
  \<^verbatim>\<open>/data/docs\<close>, the write path falls back to the file name and is
  \<^verbatim>\<open>/tmp/work/_markdown/a.txt.md\<close>; the delete path has no fallback: it names no snapshot
  at all, and \<^verbatim>\<open>_delete_markdown_snapshot\<close> returns without touching anything. The
  reader's \<^verbatim>\<open>_resolve_markdown_path\<close> finds no snapshot either.
\<close>

theorem snapshot_paths_disagree_outside_root:
  "snapshot_write_path [''data'', ''other'', ''a.txt''] example_markdown_dir example_root
     = Some [''tmp'', ''work'', ''_markdown'', ''a.txt.md'']
   \<and> snapshot_delete_path [''data'', ''other'', ''a.txt''] example_markdown_dir example_root
     = NoSnapshot
   \<and> resolve_markdown_path [''data'', ''other'', ''a.txt''] [''tmp'', ''work''] example_root = None
   \<and> delete_markdown_snapshot e [''data'', ''other'', ''a.txt''] example_markdown_dir example_root w
     = Inr w"
  by (simp add: snapshot_write_path_def snapshot_delete_path_def resolve_markdown_path_def
      delete_markdown_snapshot_def relative_to_def path_of_name_def basename_def
      with_suffix_def md_suffix_def name_suffix_def rfind_def
      example_markdown_dir_def example_root_def)

text \<open>
  Claim C3, evaluated on the code. The first pass indexes \<^verbatim>\<open>/data/docs/a.txt\<close> and writes
  its snapshot. The second pass, over the root \<^verbatim>\<open>/data/new\<close>, finds the row of
  \<^verbatim>\<open>/data/docs/a.txt\<close> in the store and not in the scan: it deletes the row, and the
  snapshot \<^verbatim>\<open>/tmp/work/_markdown/a.txt.md\<close> is still there afterwards.
\<close>

theorem removed_file_outside_root_keeps_snapshot:
  "fst first_pass = None
   \<and> map fst (fst (snd first_pass)) = [[''data'', ''docs'', ''a.txt'']]
   \<and> map_of (snap_files (snd (snd first_pass))) [''tmp'', ''work'', ''_markdown'', ''a.txt.md'']
       = Some ''hello''
   \<and> fst second_pass = None
   \<and> fst (snd second_pass) = []
   \<and> map_of (snap_files (snd (snd second_pass))) [''tmp'', ''work'', ''_markdown'', ''a.txt.md'']
       = Some ''hello''"
  by code_simp

section \<open>Properties of one file\<close>

lemma mkdir_parents_frame:
  "mkdir_parents d w = Some w1 \<Longrightarrow> w1 = w\<lparr>snap_dirs := snap_dirs w \<union> set (prefixes d)\<rparr>"
  by (simp add: mkdir_parents_def split: if_splits)

lemma convert_fst:
  "fst (convert_to_markdown e p t w) =
     (case wait_result (if conversion_warmup_used w then t else t + CONVERSION_STARTUP_BUFFER)
             (conversion_worker e p) of
        Result (Success d) \<Rightarrow> Some d | Result (Unsupported m) \<Rightarrow> None | Result (Error m) \<Rightarrow> None
      | TimedOut \<Rightarrow> None | Raised \<Rightarrow> None)"
  by (cases "conversion_warmup_used w"; cases "conversion_executor w")
     (simp_all add: convert_to_markdown_def ensure_conversion_executor_def Let_def
        split: waited.split conv_status.split)

lemma encode_fst:
  "fst (encode_with_timeout e txt t w) =
     (case embedding_attempt e txt t w of
        Result (EncSuccess d) \<Rightarrow> Some d | Result (EncError m) \<Rightarrow> None
      | TimedOut \<Rightarrow> None | Raised \<Rightarrow> None)"
  by (cases "embedding_warmup_used w"; cases "embedding_executor w")
     (simp_all add: encode_with_timeout_def ensure_embedding_executor_def Let_def
        embedding_attempt_def split: waited.split enc_status.split)

lemma convert_frame:
  "staged (snd (convert_to_markdown e p t w)) = staged w
   \<and> embedding_warmup_used (snd (convert_to_markdown e p t w)) = embedding_warmup_used w
   \<and> embedding_executor (snd (convert_to_markdown e p t w)) = embedding_executor w
   \<and> snap_files (snd (convert_to_markdown e p t w)) = snap_files w
   \<and> snap_dirs (snd (convert_to_markdown e p t w)) = snap_dirs w"
  by (simp add: convert_to_markdown_def ensure_conversion_executor_def Let_def
        split: waited.split conv_status.split)

lemma encode_frame:
  "staged (snd (encode_with_timeout e txt t w)) = staged w
   \<and> conversion_warmup_used (snd (encode_with_timeout e txt t w)) = conversion_warmup_used w
   \<and> conversion_executor (snd (encode_with_timeout e txt t w)) = conversion_executor w
   \<and> snap_files (snd (encode_with_timeout e txt t w)) = snap_files w
   \<and> snap_dirs (snd (encode_with_timeout e txt t w)) = snap_dirs w"
  by (simp add: encode_with_timeout_def ensure_embedding_executor_def Let_def
        split: waited.split enc_status.split)

lemma convert_file_unfold:
  "convert_file e p t w =
     (if lower (name_suffix (basename p)) \<in> ARCHIVE_EXTENSIONS \<and> archive_too_big e p then (None, w)
      else if lower (name_suffix (basename p)) \<in> fast_formats then
        (case inline_conversion e p of
           None \<Rightarrow> (None, w)
         | Some txt \<Rightarrow> if strip txt = [] then (None, w) else (Some txt, w))
      else
        (case fst (convert_to_markdown e p t w) of
           None \<Rightarrow> (None, snd (convert_to_markdown e p t w))
         | Some txt \<Rightarrow>
             if strip txt = [] then (None, snd (convert_to_markdown e p t w))
             else (Some txt, snd (convert_to_markdown e p t w))))"
proof -
  obtain r w' where c: "convert_to_markdown e p t w = (r, w')"
    by (cases "convert_to_markdown e p t w")
  show ?thesis
    unfolding convert_file_def Let_def c
    by (cases r; cases "inline_conversion e p") simp_all
qed

lemma convert_file_fst:
  "fst (convert_file e p t w) =
     (if lower (name_suffix (basename p)) \<in> ARCHIVE_EXTENSIONS \<and> archive_too_big e p then None
      else (case conversion_attempt e p t w of
              Result (Success txt) \<Rightarrow> if strip txt = [] then None else Some txt
            | Result (Unsupported m) \<Rightarrow> None | Result (Error m) \<Rightarrow> None
            | TimedOut \<Rightarrow> None | Raised \<Rightarrow> None))"
  by (simp add: convert_file_unfold convert_fst conversion_attempt_def inline_conversion_def
      split: waited.split conv_status.split option.split)

lemma convert_file_frame:
  "staged (snd (convert_file e p t w)) = staged w
   \<and> embedding_warmup_used (snd (convert_file e p t w)) = embedding_warmup_used w
   \<and> embedding_executor (snd (convert_file e p t w)) = embedding_executor w
   \<and> snap_files (snd (convert_file e p t w)) = snap_files w
   \<and> snap_dirs (snd (convert_file e p t w)) = snap_dirs w"
  by (simp add: convert_file_unfold convert_frame split: option.split)

lemma write_text_frame:
  "staged (write_text e mp txt w) = staged w
   \<and> trace (write_text e mp txt w) = trace w
   \<and> embedding_warmup_used (write_text e mp txt w) = embedding_warmup_used w
   \<and> embedding_executor (write_text e mp txt w) = embedding_executor w
   \<and> conversion_warmup_used (write_text e mp txt w) = conversion_warmup_used w
   \<and> conversion_executor (write_text e mp txt w) = conversion_executor w"
  by (simp add: write_text_def)

lemma archive_too_big_iff:
  "archive_too_big e p =
     (case stat_size e p of None \<Rightarrow> True | Some n \<Rightarrow> n > MAX_ARCHIVE_SIZE_BYTES)"
  by (simp add: archive_too_big_def split: option.split)

lemma generate_embedding_unfold:
  assumes "snapshot_write_path p md root = Some mp"
    and "mkdir_parents (butlast mp) w = Some w1"
  shows "generate_embedding e p md root t w =
     (case fst (convert_file e p t w1) of
        None \<Rightarrow> (Inr None, snd (convert_file e p t w1))
      | Some txt \<Rightarrow>
          (case fst (encode_with_timeout e txt t (write_text e mp txt (snd (convert_file e p t w1)))) of
             None \<Rightarrow> (Inr None, snd (encode_with_timeout e txt t (write_text e mp txt (snd (convert_file e p t w1)))))
           | Some v \<Rightarrow> (Inr (Some v), snd (encode_with_timeout e txt t (write_text e mp txt (snd (convert_file e p t w1)))))))"
proof -
  obtain r w2 where c: "convert_file e p t w1 = (r, w2)"
    by (cases "convert_file e p t w1")
  show ?thesis
  proof (cases r)
    case None
    with c assms show ?thesis by (simp add: generate_embedding_def)
  next
    case (Some tc)
    obtain v w3 where d: "encode_with_timeout e tc t (write_text e mp tc w2) = (v, w3)"
      by (cases "encode_with_timeout e tc t (write_text e mp tc w2)")
    from Some c d assms show ?thesis
      by (cases v) (simp_all add: generate_embedding_def)
  qed
qed

lemma generate_embedding_fst:
  assumes "snapshot_write_path p md root = Some mp"
    and "mkdir_parents (butlast mp) w = Some w1"
  shows "fst (generate_embedding e p md root t w) =
     (case skip_cause e p t w of
        Some c \<Rightarrow> Inr None
      | None \<Rightarrow>
          (case conversion_attempt e p t w of
             Result (Success txt) \<Rightarrow>
               (case embedding_attempt e txt t w of
                  Result (EncSuccess v) \<Rightarrow> Inr (Some v)
                | _ \<Rightarrow> Inr None)
           | _ \<Rightarrow> Inr None))"
proof -
  have w1: "w1 = w\<lparr>snap_dirs := snap_dirs w \<union> set (prefixes (butlast mp))\<rparr>"
    using assms(2) by (rule mkdir_parents_frame)
  have ca: "conversion_attempt e p t w1 = conversion_attempt e p t w"
    by (simp add: w1 conversion_attempt_def)
  have ea: "\<And>txt. embedding_attempt e txt t (write_text e mp txt (snd (convert_file e p t w1)))
              = embedding_attempt e txt t w"
    by (simp add: embedding_attempt_def write_text_frame convert_file_frame w1)
  show ?thesis
    unfolding generate_embedding_unfold [OF assms] convert_file_fst encode_fst ca
    by (simp add: ea skip_cause_def archive_too_big_iff
        split: waited.split conv_status.split enc_status.split option.split)
qed

lemma pool_ext_iff:
  "pool_ext tr tr' \<longleftrightarrow> (\<exists>pe. tr' = tr @ pe \<and> list_all is_pool_event pe)"
  by (auto simp: pool_ext_def prefix_def)

lemma pool_ext_refl: "pool_ext tr tr"
  by (simp add: pool_ext_iff)

lemma pool_ext_trans: "pool_ext a b \<Longrightarrow> pool_ext b c \<Longrightarrow> pool_ext a c"
  by (auto simp: pool_ext_iff)

lemma pool_ext_append: "list_all is_pool_event pe \<Longrightarrow> pool_ext tr (tr @ pe)"
  by (auto simp: pool_ext_iff)

lemma convert_pool_ext: "pool_ext (trace w) (trace (snd (convert_to_markdown e p t w)))"
  unfolding convert_trace
  by (cases "conversion_executor w")
     (simp_all add: ensure_conversion_executor_def pool_ext_iff)

lemma encode_pool_ext: "pool_ext (trace w) (trace (snd (encode_with_timeout e tc t w)))"
  unfolding encode_trace
  by (cases "embedding_executor w")
     (simp_all add: ensure_embedding_executor_def pool_ext_iff)

lemma convert_file_pool_ext: "pool_ext (trace w) (trace (snd (convert_file e p t w)))"
  by (simp add: convert_file_unfold convert_pool_ext pool_ext_refl split: option.split)

lemma generate_embedding_frame:
  "staged (snd (generate_embedding e p md root t w)) = staged w
   \<and> pool_ext (trace w) (trace (snd (generate_embedding e p md root t w)))"
proof (cases "snapshot_write_path p md root")
  case None
  then show ?thesis by (simp add: generate_embedding_def pool_ext_refl)
next
  case (Some mp)
  show ?thesis
  proof (cases "mkdir_parents (butlast mp) w")
    case None
    with Some show ?thesis by (simp add: generate_embedding_def pool_ext_refl)
  next
    case (Some w1)
    have w1: "w1 = w\<lparr>snap_dirs := snap_dirs w \<union> set (prefixes (butlast mp))\<rparr>"
      using Some by (rule mkdir_parents_frame)
    have a: "pool_ext (trace w) (trace (snd (convert_file e p t w1)))"
      using convert_file_pool_ext [of w1 e p t] by (simp add: w1)
    have b: "\<And>tc. pool_ext (trace w)
               (trace (snd (encode_with_timeout e tc t (write_text e mp tc (snd (convert_file e p t w1))))))"
      using a encode_pool_ext pool_ext_trans write_text_frame by metis
    have c: "staged (snd (convert_file e p t w1)) = staged w"
      by (simp add: convert_file_frame w1)
    show ?thesis
      unfolding generate_embedding_unfold [OF \<open>snapshot_write_path p md root = Some mp\<close> Some]
      by (simp add: a b c encode_frame write_text_frame split: option.split)
  qed
qed

section \<open>Properties of one pass\<close>

lemma process_file_unfold:
  "process_file e hs md root t (p, h, x) w =
     (if hs p = Some h then (None, w)
      else
        (case fst (generate_embedding e p md root t w) of
           Inl err \<Rightarrow> (Some err, snd (generate_embedding e p md root t w))
         | Inr None \<Rightarrow> (None, snd (generate_embedding e p md root t w))
         | Inr (Some v) \<Rightarrow>
             if hs p = None
             then sql_insert p (new_row e p h v x)
                    (notify_progress e p (snd (generate_embedding e p md root t w)))
             else (None, sql_update p (new_row e p h v x)
                    (notify_progress e p (snd (generate_embedding e p md root t w))))))"
proof -
  obtain r w1 where g: "generate_embedding e p md root t w = (r, w1)"
    by (cases "generate_embedding e p md root t w")
  show ?thesis
    by (cases "hs p"; cases r) (simp_all add: process_file_def g split: option.split)
qed

lemma map_of_sql_update:
  "p \<noteq> q \<Longrightarrow>
   map_of (map (\<lambda>(k, old). if k = q then (k, r) else (k, old)) xs) p = map_of xs p"
  by (induction xs) auto

lemma sql_insert_result:
  "fst (sql_insert p r w) = (if p \<in> fst ` set (staged w) then Some IntegrityError else None)"
  "staged (snd (sql_insert p r w))
     = (if p \<in> fst ` set (staged w) then staged w else staged w @ [(p, r)])"
  "trace (snd (sql_insert p r w))
     = (if p \<in> fst ` set (staged w) then trace w else trace w @ [Inserted p])"
  by (simp_all add: sql_insert_def sql_begin_def Let_def)

lemma sql_update_result:
  "staged (sql_update p r w)
     = map (\<lambda>(k, old). if k = p then (k, r) else (k, old)) (staged w)"
  "trace (sql_update p r w) = trace w @ [Updated p]"
  by (simp_all add: sql_update_def sql_begin_def Let_def)

lemma sql_delete_result:
  "staged (sql_delete p w) = filter (\<lambda>r. fst r \<noteq> p) (staged w)"
  "trace (sql_delete p w) = trace w @ [Deleted p]"
  by (simp_all add: sql_delete_def sql_begin_def Let_def)

lemma process_file_other_row:
  assumes "p \<noteq> q"
  shows "map_of (staged (snd (process_file e hs md root t (q, h, x) w))) p = map_of (staged w) p"
proof -
  have g: "staged (snd (generate_embedding e q md root t w)) = staged w"
    by (simp add: generate_embedding_frame)
  show ?thesis
    unfolding process_file_unfold
    using assms g
    by (simp add: sql_insert_result sql_update_result notify_progress_def map_of_sql_update
        map_add_def split: sum.split option.split)
qed

lemma process_files_other_row:
  "p \<notin> fst ` set files \<Longrightarrow>
   map_of (staged (snd (process_files e hs md root t files w))) p = map_of (staged w) p"
proof (induction files arbitrary: w)
  case Nil
  then show ?case by simp
next
  case (Cons entry rest)
  obtain q h x where entry: "entry = (q, h, x)"
    by (cases entry)
  obtain r w1 where step: "process_file e hs md root t (q, h, x) w = (r, w1)"
    by (cases "process_file e hs md root t (q, h, x) w")
  from Cons.prems entry have pq: "p \<noteq> q" and rest: "p \<notin> fst ` set rest"
    by auto
  have w1: "map_of (staged w1) p = map_of (staged w) p"
    using process_file_other_row [OF pq, of e hs md root t h x w] step by simp
  show ?case
  proof (cases r)
    case None
    with step entry Cons.IH [OF rest, of w1] w1 show ?thesis by simp
  next
    case (Some err)
    with step entry w1 show ?thesis by simp
  qed
qed

lemma process_file_skipped:
  assumes "hs p = Some h \<or> fst (generate_embedding e p md root t w) = Inr None"
  shows "fst (process_file e hs md root t (p, h, x) w) = None
         \<and> staged (snd (process_file e hs md root t (p, h, x) w)) = staged w
         \<and> pool_ext (trace w) (trace (snd (process_file e hs md root t (p, h, x) w)))"
  using assms generate_embedding_frame [of e p md root t w]
  by (auto simp: process_file_unfold pool_ext_refl)

text \<open>
  Claim C1. Take a file of the batch whose conversion is reached (its snapshot directory
  can be made) and whose conversion or encoding fails or times out for any of the
  reasons of \<open>skip_cause\<close>: oversized archive, unsupported format, conversion error or
  timeout, empty or whitespace-only text, encoding error or timeout. Its iteration raises
  nothing, executes no statement and invokes no callback, leaves every row of the table
  as it was, and the loop goes on with the remaining files; when no later entry has the
  same path, the file's row at the end of the loop is the row it had before (same hash,
  embedding, timestamp and extension), or still no row.
\<close>

theorem failed_file_is_skipped:
  assumes "snapshot_write_path p md root = Some mp"
    and "mkdir_parents (butlast mp) w \<noteq> None"
    and "skip_cause e p t w = Some c"
  shows "fst (process_file e hs md root t (p, h, x) w) = None
     \<and> staged (snd (process_file e hs md root t (p, h, x) w)) = staged w
     \<and> pool_ext (trace w) (trace (snd (process_file e hs md root t (p, h, x) w)))
     \<and> process_files e hs md root t ((p, h, x) # rest) w
         = process_files e hs md root t rest (snd (process_file e hs md root t (p, h, x) w))
     \<and> (p \<notin> fst ` set rest \<longrightarrow>
          map_of (staged (snd (process_files e hs md root t ((p, h, x) # rest) w))) p
            = map_of (staged w) p)"
proof -
  from assms(2) obtain w1 where w1: "mkdir_parents (butlast mp) w = Some w1"
    by auto
  have "fst (generate_embedding e p md root t w) = Inr None"
    using generate_embedding_fst [OF assms(1) w1, of e t] assms(3) by simp
  then have skipped: "fst (process_file e hs md root t (p, h, x) w) = None
      \<and> staged (snd (process_file e hs md root t (p, h, x) w)) = staged w
      \<and> pool_ext (trace w) (trace (snd (process_file e hs md root t (p, h, x) w)))"
    using process_file_skipped [of hs p h e md root t w x] by simp
  obtain r w2 where step: "process_file e hs md root t (p, h, x) w = (r, w2)"
    by (cases "process_file e hs md root t (p, h, x) w")
  with skipped have r: "r = None" and w2: "staged w2 = staged w"
    by simp_all
  have loop: "process_files e hs md root t ((p, h, x) # rest) w
                = process_files e hs md root t rest w2"
    using step r by simp
  have row: "p \<notin> fst ` set rest \<longrightarrow>
      map_of (staged (snd (process_files e hs md root t ((p, h, x) # rest) w))) p
        = map_of (staged w) p"
    using process_files_other_row [of p rest e hs md root t w2] loop w2 by simp
  from skipped loop row step show ?thesis
    by simp
qed

text \<open>
  On the example: the conversion of \<^verbatim>\<open>slow.pdf\<close> times out, its old row stays, and
  \<^verbatim>\<open>a.txt\<close>, next in the batch, is indexed.
\<close>

theorem failed_file_is_skipped_witness:
  "skip_cause example_env [''data'', ''docs'', ''slow.pdf''] 5 example_world = Some ConversionTimeout
   \<and> map_of (staged (snd (process_files example_env (load_hashes example_table)
               example_markdown_dir example_root 5
               [([''data'', ''docs'', ''slow.pdf''], ''h1'', ''.pdf''),
                ([''data'', ''docs'', ''a.txt''], ''h2'', ''.txt'')]
               example_world)))
        [''data'', ''docs'', ''slow.pdf'']
       = Some \<lparr>file_hash = ''h0'', embedding_vector = ''old'', last_updated = 3,
               file_extension = ''.pdf''\<rparr>
   \<and> map fst (staged (snd (process_files example_env (load_hashes example_table)
               example_markdown_dir example_root 5
               [([''data'', ''docs'', ''slow.pdf''], ''h1'', ''.pdf''),
                ([''data'', ''docs'', ''a.txt''], ''h2'', ''.txt'')]
               example_world)))
       = [[''data'', ''docs'', ''slow.pdf''], [''data'', ''docs'', ''a.txt'']]"
proof -
  have a: "snapshot_write_path [''data'', ''docs'', ''slow.pdf''] example_markdown_dir example_root
             = Some [''tmp'', ''work'', ''_markdown'', ''slow.pdf.md'']"
    by code_simp
  have b: "mkdir_parents (butlast [''tmp'', ''work'', ''_markdown'', ''slow.pdf.md'']) example_world
             \<noteq> None"
    by code_simp
  have c: "skip_cause example_env [''data'', ''docs'', ''slow.pdf''] 5 example_world
             = Some ConversionTimeout"
    by code_simp
  have d: "[''data'', ''docs'', ''slow.pdf'']
             \<notin> fst ` set [([''data'', ''docs'', ''a.txt''], ''h2'', ''.txt'')]"
    by simp
  have e: "map_of (staged example_world) [''data'', ''docs'', ''slow.pdf'']
       = Some \<lparr>file_hash = ''h0'', embedding_vector = ''old'', last_updated = 3,
               file_extension = ''.pdf''\<rparr>"
    by (simp add: example_world_def example_table_def)
  have f: "map fst (staged (snd (process_files example_env (load_hashes example_table)
               example_markdown_dir example_root 5
               [([''data'', ''docs'', ''slow.pdf''], ''h1'', ''.pdf''),
                ([''data'', ''docs'', ''a.txt''], ''h2'', ''.txt'')]
               example_world)))
       = [[''data'', ''docs'', ''slow.pdf''], [''data'', ''docs'', ''a.txt'']]"
    by code_simp
  from failed_file_is_skipped [OF a b c, of "load_hashes example_table" "''h1''" "''.pdf''"
         "[([''data'', ''docs'', ''a.txt''], ''h2'', ''.txt'')]"] d
  have g: "map_of (staged (snd (process_files example_env (load_hashes example_table)
               example_markdown_dir example_root 5
               [([''data'', ''docs'', ''slow.pdf''], ''h1'', ''.pdf''),
                ([''data'', ''docs'', ''a.txt''], ''h2'', ''.txt'')]
               example_world)))
        [''data'', ''docs'', ''slow.pdf'']
       = map_of (staged example_world) [''data'', ''docs'', ''slow.pdf'']"
    by blast
  from c e f g show ?thesis
    by (simp only: simp_thms)
qed

lemma pool_events_skipped:
  "list_all is_pool_event pe \<Longrightarrow>
   staging_follows_callback (pe @ tr) = staging_follows_callback tr
   \<and> callback_paths (pe @ tr) = callback_paths tr
   \<and> indexed_paths (pe @ tr) = indexed_paths tr"
proof (induction pe)
  case Nil
  then show ?case by simp
next
  case (Cons ev pe)
  then show ?case by (cases ev) simp_all
qed

lemma process_file_trace:
  assumes "has_progress_callback e"
    and "fst (process_file e hs md root t (p, h, x) w) = None"
  shows "\<exists>pe tail. trace (snd (process_file e hs md root t (p, h, x) w)) = trace w @ pe @ tail
           \<and> list_all is_pool_event pe
           \<and> (tail = [] \<or> tail = [Callback p, Inserted p] \<or> tail = [Callback p, Updated p])"
proof -
  obtain pe where pe: "trace (snd (generate_embedding e p md root t w)) = trace w @ pe"
      "list_all is_pool_event pe"
    using generate_embedding_frame [of e p md root t w] by (auto simp: pool_ext_iff)
  have nil: "trace w = trace w @ [] @ []" "list_all is_pool_event []"
    by simp_all
  show ?thesis
  proof (cases "hs p = Some h")
    case True
    then show ?thesis
      using nil by (simp add: process_file_unfold)
  next
    case False
    show ?thesis
    proof (cases "fst (generate_embedding e p md root t w)")
      case (Inl err)
      with False assms(2) show ?thesis by (simp add: process_file_unfold)
    next
      case (Inr r)
      show ?thesis
      proof (cases r)
        case None
        with Inr False pe show ?thesis
          by (auto simp: process_file_unfold)
      next
        case (Some v)
        with Inr False pe assms show ?thesis
          by (auto simp: process_file_unfold sql_insert_def sql_update_def sql_begin_def
              Let_def notify_progress_def split: if_splits)
      qed
    qed
  qed
qed

lemma subseq_step:
  "subseq ps (map fst rest) \<Longrightarrow> subseq ps (p # map fst rest)"
  "subseq ps (map fst rest) \<Longrightarrow> subseq (p # ps) (p # map fst rest)"
  by auto

lemma process_files_trace:
  assumes "has_progress_callback e"
  shows "fst (process_files e hs md root t files w) = None \<Longrightarrow>
         \<exists>new. trace (snd (process_files e hs md root t files w)) = trace w @ new
           \<and> staging_follows_callback new
           \<and> callback_paths new = indexed_paths new
           \<and> subseq (callback_paths new) (map fst files)"
proof (induction files arbitrary: w)
  case Nil
  then show ?case by simp
next
  case (Cons entry rest)
  obtain p h x where entry: "entry = (p, h, x)"
    by (cases entry)
  obtain r w1 where step: "process_file e hs md root t (p, h, x) w = (r, w1)"
    by (cases "process_file e hs md root t (p, h, x) w")
  from Cons.prems entry step have r: "r = None"
    by (cases r) simp_all
  from Cons.prems entry step r
  have rest_ok: "fst (process_files e hs md root t rest w1) = None"
    and whole: "process_files e hs md root t (entry # rest) w = process_files e hs md root t rest w1"
    by simp_all
  from Cons.IH [OF rest_ok] obtain new' where new':
    "trace (snd (process_files e hs md root t rest w1)) = trace w1 @ new'"
    "staging_follows_callback new'"
    "callback_paths new' = indexed_paths new'"
    "subseq (callback_paths new') (map fst rest)"
    by blast
  from process_file_trace [OF assms, of hs md root t p h x w] step r
  obtain pe tail where st:
    "trace w1 = trace w @ pe @ tail" "list_all is_pool_event pe"
    "tail = [] \<or> tail = [Callback p, Inserted p] \<or> tail = [Callback p, Updated p]"
    by auto
  let ?new = "pe @ tail @ new'"
  have 1: "trace (snd (process_files e hs md root t (entry # rest) w)) = trace w @ ?new"
    using whole new'(1) st(1) by simp
  have 2: "staging_follows_callback ?new"
    using st(2,3) new'(2) by (auto simp: pool_events_skipped)
  have 3: "callback_paths ?new = indexed_paths ?new"
    using st(2,3) new'(3) by (auto simp: pool_events_skipped)
  have 4: "subseq (callback_paths ?new) (map fst (entry # rest))"
    using st(2,3) new'(4) entry by (auto simp: pool_events_skipped subseq_step)
  from 1 2 3 4 show ?case
    by blast
qed

text \<open>
  Claim C4 as the code has it. With a progress callback, in a loop that raises nothing,
  the callback is invoked once for every file whose row is written, with that file's
  path, in processing order, after the file's embedding was generated and immediately
  before the \<^verbatim>\<open>INSERT\<close> or \<^verbatim>\<open>UPDATE\<close> of the row is executed; the iteration of a
  skipped or unchanged file adds events of the pools only, so the callback is never
  invoked for it.
\<close>

theorem callback_precedes_staging:
  assumes "has_progress_callback e"
    and "fst (process_files e hs md root t files w) = None"
  shows "(\<exists>new. trace (snd (process_files e hs md root t files w)) = trace w @ new
            \<and> staging_follows_callback new
            \<and> callback_paths new = indexed_paths new
            \<and> subseq (callback_paths new) (map fst files))
         \<and> (\<forall>p h x w0. hs p = Some h \<or> fst (generate_embedding e p md root t w0) = Inr None \<longrightarrow>
               pool_ext (trace w0) (trace (snd (process_file e hs md root t (p, h, x) w0))))"
  using process_files_trace [OF assms] process_file_skipped by blast

text \<open>
  Claim C4 as stated fails: in the first example pass the callback for
  \<^verbatim>\<open>/data/docs/a.txt\<close> is invoked while no statement for that path has been executed
  yet; the \<^verbatim>\<open>INSERT\<close> follows it.
\<close>

theorem callback_before_row_counterexample:
  "trace (snd (snd first_pass))
     = [PoolCreated Embedding, Submitted Embedding 20, Submitted Embedding 5,
        Callback [''data'', ''docs'', ''a.txt''], Inserted [''data'', ''docs'', ''a.txt'']]
   \<and> \<not> callbacks_follow_staging [] (trace (snd (snd first_pass)))"
  by code_simp

text \<open>
  On the example: \<^verbatim>\<open>slow.pdf\<close> is skipped, \<^verbatim>\<open>a.txt\<close> is indexed, and the callback is
  invoked for \<^verbatim>\<open>a.txt\<close> alone.
\<close>

theorem callback_precedes_staging_witness:
  "has_progress_callback example_env
   \<and> fst (process_files example_env Map.empty example_markdown_dir example_root 5
        [([''data'', ''docs'', ''slow.pdf''], ''h1'', ''.pdf''),
         ([''data'', ''docs'', ''a.txt''], ''h2'', ''.txt'')]
        (init_world example_markdown_dir)) = None
   \<and> (\<exists>new. trace (snd (process_files example_env Map.empty example_markdown_dir example_root 5
        [([''data'', ''docs'', ''slow.pdf''], ''h1'', ''.pdf''),
         ([''data'', ''docs'', ''a.txt''], ''h2'', ''.txt'')]
        (init_world example_markdown_dir))) = trace (init_world example_markdown_dir) @ new
          \<and> staging_follows_callback new
          \<and> callback_paths new = indexed_paths new
          \<and> subseq (callback_paths new)
               (map fst [([''data'', ''docs'', ''slow.pdf''], ''h1'', ''.pdf''),
                         ([''data'', ''docs'', ''a.txt''], ''h2'', ''.txt'')]))
   \<and> callback_paths (trace (snd (process_files example_env Map.empty example_markdown_dir
        example_root 5
        [([''data'', ''docs'', ''slow.pdf''], ''h1'', ''.pdf''),
         ([''data'', ''docs'', ''a.txt''], ''h2'', ''.txt'')]
        (init_world example_markdown_dir)))) = [[''data'', ''docs'', ''a.txt'']]"
proof -
  have a: "has_progress_callback example_env"
    by (simp add: example_env_def)
  have b: "fst (process_files example_env Map.empty example_markdown_dir example_root 5
        [([''data'', ''docs'', ''slow.pdf''], ''h1'', ''.pdf''),
         ([''data'', ''docs'', ''a.txt''], ''h2'', ''.txt'')]
        (init_world example_markdown_dir)) = None"
    by code_simp
  have c: "callback_paths (trace (snd (process_files example_env Map.empty example_markdown_dir
        example_root 5
        [([''data'', ''docs'', ''slow.pdf''], ''h1'', ''.pdf''),
         ([''data'', ''docs'', ''a.txt''], ''h2'', ''.txt'')]
        (init_world example_markdown_dir)))) = [[''data'', ''docs'', ''a.txt'']]"
    by code_simp
  from callback_precedes_staging [OF a b] a b c show ?thesis
    by blast
qed

lemma rmdir_commit: "rmdir (e\<lparr>commit_fails := b\<rparr>) d w = rmdir e d w"
  by (simp add: rmdir_def)

lemma prune_commit:
  "prune_empty_markdown_dirs (e\<lparr>commit_fails := b\<rparr>) c m w = prune_empty_markdown_dirs e c m w"
proof (induction e c m w rule: prune_empty_markdown_dirs.induct)
  case (1 e c m w)
  have L: "prune_empty_markdown_dirs (e\<lparr>commit_fails := b\<rparr>) c m w =
     (if m \<noteq> c \<and> strict_prefix m c then
        (case rmdir e c w of
           None \<Rightarrow> w
         | Some w' \<Rightarrow> prune_empty_markdown_dirs (e\<lparr>commit_fails := b\<rparr>) (butlast c) m w')
      else w)"
    by (subst prune_empty_markdown_dirs.simps) (simp add: rmdir_commit)
  have R: "prune_empty_markdown_dirs e c m w =
     (if m \<noteq> c \<and> strict_prefix m c then
        (case rmdir e c w of
           None \<Rightarrow> w
         | Some w' \<Rightarrow> prune_empty_markdown_dirs e (butlast c) m w')
      else w)"
    by (rule prune_empty_markdown_dirs.simps)
  show ?case
    unfolding L R using 1 by (simp split: option.split)
qed

lemma delete_commit:
  "delete_markdown_snapshot (e\<lparr>commit_fails := b\<rparr>) p md root w = delete_markdown_snapshot e p md root w"
  by (simp add: delete_markdown_snapshot_def prune_commit split: delete_target.split)

lemma remove_missing_commit:
  "remove_missing (e\<lparr>commit_fails := b\<rparr>) md root ps w = remove_missing e md root ps w"
  by (induction ps arbitrary: w) (simp_all add: delete_commit split: sum.split)

lemma generate_embedding_commit:
  "generate_embedding (e\<lparr>commit_fails := b\<rparr>) p md root t w = generate_embedding e p md root t w"
proof -
  have a: "\<And>w. convert_to_markdown (e\<lparr>commit_fails := b\<rparr>) p t w = convert_to_markdown e p t w"
    by (simp add: convert_to_markdown_def)
  have c: "\<And>w. convert_file (e\<lparr>commit_fails := b\<rparr>) p t w = convert_file e p t w"
    by (simp add: convert_file_def a archive_too_big_def inline_conversion_def Let_def
        cong: if_cong)
  have d: "\<And>tc w. encode_with_timeout (e\<lparr>commit_fails := b\<rparr>) tc t w = encode_with_timeout e tc t w"
    by (simp add: encode_with_timeout_def)
  have f: "\<And>mp tc w. write_text (e\<lparr>commit_fails := b\<rparr>) mp tc w = write_text e mp tc w"
    by (simp add: write_text_def)
  show ?thesis
    by (simp add: generate_embedding_def c d f split: option.split prod.split)
qed

lemma process_file_commit:
  "process_file (e\<lparr>commit_fails := b\<rparr>) hs md root t entry w = process_file e hs md root t entry w"
  by (simp add: process_file_def generate_embedding_commit notify_progress_def new_row_def
      split: prod.split option.split sum.split)

lemma process_files_commit:
  "process_files (e\<lparr>commit_fails := b\<rparr>) hs md root t files w = process_files e hs md root t files w"
  by (induction files arbitrary: w)
     (simp_all add: process_file_commit split: prod.split option.split)

lemma warmup_commit:
  "warmup_process_pools (e\<lparr>commit_fails := b\<rparr>) w = warmup_process_pools e w"
  by (simp add: warmup_process_pools_def)

lemma stage_changes_commit:
  "stage_changes (e\<lparr>commit_fails := b\<rparr>) db fl md root t w = stage_changes e db fl md root t w"
  by (simp add: stage_changes_def Let_def remove_missing_commit process_files_commit
      warmup_commit split: prod.split option.split)

section \<open>Properties of the store's transaction\<close>

lemma executed_map: "executed (map Executed stmts) = stmts"
  by (induction stmts) simp_all

lemma executed_append: "executed (a @ b) = executed a @ executed b"
  by (induction a rule: executed.induct) simp_all

lemma replay_snoc: "replay (stmts @ [s]) t = apply_statement s (replay stmts t)"
  by (simp add: replay_def)

lemma statements_then_end_map:
  "statements_then_end (map Executed stmts @ fin) = statements_then_end fin"
  by (induction stmts) simp_all

lemma update_as_statement:
  "map (\<lambda>(k, old). if k = p then (k, r) else (k, old)) t = apply_statement (Update p r) t"
  by (induction t) auto

text \<open>Nothing but the statements, the commit and the rollback touches the store.\<close>

lemma convert_txn: "txn_view (snd (convert_to_markdown e p t w)) = txn_view w"
  by (simp add: txn_view_def convert_to_markdown_def ensure_conversion_executor_def Let_def
      split: waited.split conv_status.split)

lemma encode_txn: "txn_view (snd (encode_with_timeout e tc t w)) = txn_view w"
  by (simp add: txn_view_def encode_with_timeout_def ensure_embedding_executor_def Let_def
      split: waited.split enc_status.split)

lemma warmup_txn: "txn_view (warmup_process_pools e w) = txn_view w"
  by (simp add: txn_view_def warmup_process_pools_def ensure_embedding_executor_def Let_def
      split: waited.split)

lemma convert_file_txn: "txn_view (snd (convert_file e p t w)) = txn_view w"
  by (simp add: convert_file_unfold convert_txn split: option.split)

lemma write_text_txn: "txn_view (write_text e mp tc w) = txn_view w"
  by (simp add: txn_view_def write_text_def)

lemma notify_txn: "txn_view (notify_progress e p w) = txn_view w"
  by (simp add: txn_view_def notify_progress_def)

lemma generate_embedding_txn:
  "txn_view (snd (generate_embedding e p md root t w)) = txn_view w"
proof (cases "snapshot_write_path p md root")
  case None
  then show ?thesis by (simp add: generate_embedding_def)
next
  case (Some mp)
  show ?thesis
  proof (cases "mkdir_parents (butlast mp) w")
    case None
    with \<open>snapshot_write_path p md root = Some mp\<close> show ?thesis
      by (simp add: generate_embedding_def)
  next
    case (Some w1)
    have "w1 = w\<lparr>snap_dirs := snap_dirs w \<union> set (prefixes (butlast mp))\<rparr>"
      using Some by (rule mkdir_parents_frame)
    then have w1: "txn_view w1 = txn_view w"
      by (simp add: txn_view_def)
    show ?thesis
      unfolding generate_embedding_unfold [OF \<open>snapshot_write_path p md root = Some mp\<close> Some]
      by (simp add: encode_txn write_text_txn convert_file_txn w1 split: option.split)
  qed
qed

lemma prune_txn: "txn_view (prune_empty_markdown_dirs e c m w) = txn_view w"
proof (induction e c m w rule: prune_empty_markdown_dirs.induct)
  case (1 e c m w)
  show ?case
  proof (cases "m \<noteq> c \<and> strict_prefix m c")
    case False
    then have "prune_empty_markdown_dirs e c m w = w"
      by (subst prune_empty_markdown_dirs.simps) auto
    then show ?thesis by simp
  next
    case True
    show ?thesis
    proof (cases "rmdir e c w")
      case None
      have "prune_empty_markdown_dirs e c m w = w"
        using True None by (subst prune_empty_markdown_dirs.simps) simp
      then show ?thesis by simp
    next
      case (Some w')
      have step: "prune_empty_markdown_dirs e c m w = prune_empty_markdown_dirs e (butlast c) m w'"
        using True Some by (subst prune_empty_markdown_dirs.simps) simp
      have "w' = w\<lparr>snap_dirs := snap_dirs w - {c}\<rparr>"
        using Some by (simp add: rmdir_def split: if_splits)
      then have w': "txn_view w' = txn_view w"
        by (simp add: txn_view_def)
      show ?thesis
        unfolding step using "1.IH" [OF True Some] w' by simp
    qed
  qed
qed

lemma delete_txn:
  assumes "delete_markdown_snapshot e p md root w = Inr w'"
  shows "txn_view w' = txn_view w"
proof (cases "snapshot_delete_path p md root")
  case NoSnapshot
  with assms show ?thesis by (simp add: delete_markdown_snapshot_def)
next
  case SuffixError
  with assms show ?thesis by (simp add: delete_markdown_snapshot_def)
next
  case (Snapshot s)
  have "txn_view (prune_empty_markdown_dirs e (butlast s) md
                    (w\<lparr>snap_files := AList.delete s (snap_files w)\<rparr>)) = txn_view w"
    unfolding prune_txn by (simp add: txn_view_def)
  with assms Snapshot show ?thesis
    by (auto simp: delete_markdown_snapshot_def split: if_splits)
qed

lemma view_store: "txn_view w' = txn_view w \<Longrightarrow> store_file w' = store_file w"
  by (simp add: txn_view_def)

lemma sql_store_frame:
  "store_file (snd (sql_insert p r w)) = store_file w"
  "store_file (sql_update p r w) = store_file w"
  "store_file (sql_delete p w) = store_file w"
  by (simp_all add: sql_insert_def sql_update_def sql_delete_def sql_begin_def Let_def)

lemma remove_missing_store:
  "store_file (snd (remove_missing e md root ps w)) = store_file w"
proof (induction ps arbitrary: w)
  case Nil
  then show ?case by simp
next
  case (Cons p ps)
  show ?case
  proof (cases "delete_markdown_snapshot e p md root (sql_delete p w)")
    case (Inl err)
    then show ?thesis by (simp add: sql_store_frame)
  next
    case (Inr w')
    have "store_file w' = store_file w"
      using view_store [OF delete_txn [OF Inr]] by (simp add: sql_store_frame)
    with Cons.IH [of w'] Inr show ?thesis by simp
  qed
qed

lemma process_file_store:
  "store_file (snd (process_file e hs md root t entry w)) = store_file w"
proof -
  obtain p h x where entry: "entry = (p, h, x)"
    by (cases entry)
  have g: "store_file (snd (generate_embedding e p md root t w)) = store_file w"
    by (rule view_store [OF generate_embedding_txn])
  have n: "store_file (notify_progress e p (snd (generate_embedding e p md root t w)))
             = store_file w"
    using view_store [OF notify_txn, of e p "snd (generate_embedding e p md root t w)"] g
    by simp
  show ?thesis
    unfolding entry process_file_unfold
    by (simp add: sql_store_frame g n split: sum.split option.split)
qed

lemma process_files_store:
  "store_file (snd (process_files e hs md root t files w)) = store_file w"
proof (induction files arbitrary: w)
  case Nil
  then show ?case by simp
next
  case (Cons entry rest)
  obtain r w1 where step: "process_file e hs md root t entry w = (r, w1)"
    by (cases "process_file e hs md root t entry w")
  have w1: "store_file w1 = store_file w"
    using process_file_store [of e hs md root t entry w] step by simp
  show ?case
  proof (cases r)
    case None
    with step Cons.IH [of w1] w1 show ?thesis by simp
  next
    case (Some err)
    with step w1 show ?thesis by simp
  qed
qed

text \<open>A pass that has not reached its commit stays in the state \<open>pass_open\<close>.\<close>

lemma pass_open_view:
  "txn_view w' = txn_view w \<Longrightarrow> pass_open db j0 stmts w' = pass_open db j0 stmts w"
  by (simp add: txn_view_def pass_open_def)

lemma sql_delete_open:
  "pass_open db j0 stmts w \<Longrightarrow> pass_open db j0 (stmts @ [Delete p]) (sql_delete p w)"
  by (cases "in_transaction w")
     (simp_all add: pass_open_def sql_delete_def sql_begin_def Let_def replay_def)

lemma sql_update_open:
  "pass_open db j0 stmts w \<Longrightarrow> pass_open db j0 (stmts @ [Update p r]) (sql_update p r w)"
  by (cases "in_transaction w")
     (simp_all add: pass_open_def sql_update_def sql_begin_def Let_def replay_def
        update_as_statement)

lemma sql_insert_open:
  "pass_open db j0 stmts w \<Longrightarrow>
   pass_open db j0 (if p \<in> fst ` set (staged w) then stmts else stmts @ [Insert p r])
     (snd (sql_insert p r w))"
  by (cases "in_transaction w")
     (simp_all add: pass_open_def sql_insert_def sql_begin_def Let_def replay_def)

lemma remove_missing_open:
  "\<exists>s. pass_open db j0 s w \<Longrightarrow>
   \<exists>s. pass_open db j0 s (snd (remove_missing e md root ps w))"
proof (induction ps arbitrary: w)
  case Nil
  then show ?case by simp
next
  case (Cons p ps)
  from Cons.prems obtain s where s: "pass_open db j0 s w"
    by blast
  have d: "pass_open db j0 (s @ [Delete p]) (sql_delete p w)"
    using s by (rule sql_delete_open)
  show ?case
  proof (cases "delete_markdown_snapshot e p md root (sql_delete p w)")
    case (Inl err)
    with d show ?thesis by auto
  next
    case (Inr w')
    have "pass_open db j0 (s @ [Delete p]) w'"
      using d pass_open_view [OF delete_txn [OF Inr]] by simp
    then have "\<exists>s. pass_open db j0 s w'"
      by blast
    from Cons.IH [OF this] Inr show ?thesis by simp
  qed
qed

lemma process_file_open:
  assumes "\<exists>s. pass_open db j0 s w"
  shows "\<exists>s. pass_open db j0 s (snd (process_file e hs md root t entry w))"
proof -
  obtain p h x where entry: "entry = (p, h, x)"
    by (cases entry)
  from assms obtain s where s: "pass_open db j0 s w"
    by blast
  have g: "pass_open db j0 s (snd (generate_embedding e p md root t w))"
    using s pass_open_view [OF generate_embedding_txn] by simp
  have n: "pass_open db j0 s (notify_progress e p (snd (generate_embedding e p md root t w)))"
    using g pass_open_view [OF notify_txn] by simp
  have i: "\<And>r. \<exists>s. pass_open db j0 s
             (snd (sql_insert p r (notify_progress e p (snd (generate_embedding e p md root t w)))))"
    using sql_insert_open [OF n] by blast
  have u: "\<And>r. \<exists>s. pass_open db j0 s
             (sql_update p r (notify_progress e p (snd (generate_embedding e p md root t w))))"
    using sql_update_open [OF n] by blast
  have w: "\<exists>s. pass_open db j0 s w"
    and g': "\<exists>s. pass_open db j0 s (snd (generate_embedding e p md root t w))"
    using s g by blast+
  show ?thesis
    unfolding entry process_file_unfold
    using w g' i u by (simp split: sum.split option.split)
qed

lemma process_files_open:
  "\<exists>s. pass_open db j0 s w \<Longrightarrow>
   \<exists>s. pass_open db j0 s (snd (process_files e hs md root t files w))"
proof (induction files arbitrary: w)
  case Nil
  then show ?case by simp
next
  case (Cons entry rest)
  obtain r w1 where step: "process_file e hs md root t entry w = (r, w1)"
    by (cases "process_file e hs md root t entry w")
  have w1: "\<exists>s. pass_open db j0 s w1"
    using process_file_open [OF Cons.prems, of e hs md root t entry] step by simp
  show ?case
  proof (cases r)
    case None
    with step Cons.IH [OF w1] show ?thesis by simp
  next
    case (Some err)
    with step w1 show ?thesis by simp
  qed
qed

lemma stage_changes_open:
  "\<exists>s. pass_open db (journal w0) s (snd (stage_changes e db fl md root t w0))"
proof -
  have c: "\<exists>s. pass_open db (journal w0) s (sql_connect db w0)"
    by (rule exI [of _ "[]"]) (simp add: pass_open_def sql_connect_def replay_def)
  obtain r1 w1 where a:
    "remove_missing e md root (files_to_remove (staged (sql_connect db w0)) fl)
       (sql_connect db w0) = (r1, w1)"
    by (cases "remove_missing e md root (files_to_remove (staged (sql_connect db w0)) fl)
                 (sql_connect db w0)")
  have w1: "\<exists>s. pass_open db (journal w0) s w1"
    using remove_missing_open
            [OF c, of e md root "files_to_remove (staged (sql_connect db w0)) fl"] a
    by simp
  show ?thesis
  proof (cases r1)
    case (Some err)
    with a w1 show ?thesis by (simp add: stage_changes_def Let_def)
  next
    case None
    have "\<exists>s. pass_open db (journal w0) s (warmup_process_pools e w1)"
      using w1 pass_open_view [OF warmup_txn] by simp
    from process_files_open [OF this] a None show ?thesis
      by (simp add: stage_changes_def Let_def)
  qed
qed

lemma stage_changes_store:
  "store_file (snd (stage_changes e db fl md root t w0)) = db"
  using stage_changes_open [of db w0 e fl md root t] by (auto simp: pass_open_def)

text \<open>The end of a pass that reached its commit.\<close>

lemma commit_and_close_open:
  assumes "pass_open db j0 stmts w"
  shows "commit_and_close e w =
     (if \<not> in_transaction w then (None, w)
      else if commit_fails e
      then (Some StoreCommitError,
            w\<lparr>staged := db, in_transaction := False,
              journal := j0 @ TxnBegin # map Executed stmts @ [TxnRollback]\<rparr>)
      else (None,
            w\<lparr>store_file := replay stmts db, in_transaction := False,
              journal := j0 @ TxnBegin # map Executed stmts @ [TxnCommit]\<rparr>))"
  using assms
  by (simp add: commit_and_close_def sql_commit_def sql_rollback_def sql_close_def
      pass_open_def)

lemma update_database_unfold:
  assumes "stage_changes e db fl md root t w0 = (r2, w2)"
  shows "update_database e db fl md root t w0 =
     (case r2 of
        Some err \<Rightarrow> (Some err, store_file w2, w2)
      | None \<Rightarrow> (fst (commit_and_close e w2), store_file (snd (commit_and_close e w2)),
                 snd (commit_and_close e w2)))"
  by (cases r2) (simp_all add: update_database_def assms split: prod.split)

lemma update_database_outcome:
  assumes "update_database e db fl md root t w0 = (err, tbl, w')"
  shows "\<exists>stmts.
     (err \<noteq> None \<and> tbl = db \<and> store_file w' = db
        \<and> (journal w' = journal w0 \<or> journal w' = journal w0 @ TxnBegin # map Executed stmts))
   \<or> (err = None \<and> tbl = db \<and> store_file w' = db \<and> staged w' = db
        \<and> \<not> in_transaction w' \<and> journal w' = journal w0)
   \<or> (err = Some StoreCommitError \<and> commit_fails e \<and> tbl = db \<and> store_file w' = db
        \<and> staged w' = db \<and> \<not> in_transaction w'
        \<and> journal w' = journal w0 @ TxnBegin # map Executed stmts @ [TxnRollback])
   \<or> (err = None \<and> \<not> commit_fails e \<and> tbl = replay stmts db
        \<and> store_file w' = replay stmts db \<and> staged w' = replay stmts db
        \<and> \<not> in_transaction w'
        \<and> journal w' = journal w0 @ TxnBegin # map Executed stmts @ [TxnCommit])"
proof -
  obtain r2 w2 where st: "stage_changes e db fl md root t w0 = (r2, w2)"
    by (cases "stage_changes e db fl md root t w0")
  obtain s where s: "pass_open db (journal w0) s w2"
    using stage_changes_open [of db w0 e fl md root t] st by auto
  note u = update_database_unfold [OF st]
  note cc = commit_and_close_open [OF s, of e]
  show ?thesis
  proof (cases r2)
    case (Some err2)
    with u assms have "err = Some err2" "tbl = store_file w2" "w' = w2"
      by simp_all
    with s show ?thesis
      by (intro exI [of _ s]) (auto simp: pass_open_def split: if_splits)
  next
    case None
    with u assms have r: "err = fst (commit_and_close e w2)"
        "tbl = store_file (snd (commit_and_close e w2))" "w' = snd (commit_and_close e w2)"
      by simp_all
    show ?thesis
    proof (cases "in_transaction w2")
      case False
      with r cc s show ?thesis
        by (intro exI [of _ s]) (simp add: pass_open_def replay_def)
    next
      case True
      with r cc s show ?thesis
        by (intro exI [of _ s]) (cases "commit_fails e"; simp add: pass_open_def)
    qed
  qed
qed

text \<open>
  Claim C2. The statements of a pass act on the rows of the connection and leave the
  store's file alone, and neither the deletions nor the warm-up nor the loop over the
  scanned files changes the file. Over the whole pass the store's journal gets at most
  one transaction: one \<^verbatim>\<open>BEGIN\<close> before the first statement, then the statements, and a
  \<^verbatim>\<open>COMMIT\<close> or \<^verbatim>\<open>ROLLBACK\<close> only as the last entry. When the method returns, the file
  holds the old table with every statement of the journal applied, in order, the
  connection sees the same rows and has no transaction open; whenever it raises, the
  file holds the old table and the journal has no \<^verbatim>\<open>COMMIT\<close>. A \<^verbatim>\<open>ROLLBACK\<close> is in the
  journal only when the commit's error left the method, and then the connection sees
  the old rows again. A pass that commits a transaction when the commit works raises
  the commit's error, after the rollback, when the commit fails.
\<close>

theorem single_transaction:
  assumes "update_database e db file_list markdown_dir root_path conversion_timeout w0
             = (err, tbl, w')"
  shows "tbl = store_file w'
     \<and> (\<exists>J. journal w' = journal w0 @ J \<and> one_transaction J
          \<and> (err = None \<longrightarrow>
                tbl = replay (executed J) db \<and> staged w' = tbl \<and> \<not> in_transaction w'
                \<and> (J = [] \<or> last J = TxnCommit))
          \<and> (err \<noteq> None \<longrightarrow> tbl = db \<and> TxnCommit \<notin> set J)
          \<and> (TxnRollback \<in> set J \<longrightarrow>
                err = Some StoreCommitError \<and> last J = TxnRollback
                \<and> staged w' = db \<and> \<not> in_transaction w'))
     \<and> (commit_fails e
          \<and> fst (update_database (e\<lparr>commit_fails := False\<rparr>) db file_list markdown_dir
                   root_path conversion_timeout w0) = None
          \<and> journal (snd (snd (update_database (e\<lparr>commit_fails := False\<rparr>) db file_list
                   markdown_dir root_path conversion_timeout w0))) \<noteq> journal w0 \<longrightarrow>
          err = Some StoreCommitError \<and> tbl = db \<and> last (journal w') = TxnRollback)
     \<and> store_file (snd (sql_insert p r w)) = store_file w
     \<and> store_file (sql_update p r w) = store_file w
     \<and> store_file (sql_delete p w) = store_file w
     \<and> store_file (snd (remove_missing e markdown_dir root_path ps w)) = store_file w
     \<and> store_file (warmup_process_pools e w) = store_file w
     \<and> store_file (snd (process_files e hs markdown_dir root_path conversion_timeout files w))
         = store_file w"
proof -
  from update_database_outcome [OF assms] obtain s where o:
    "(err \<noteq> None \<and> tbl = db \<and> store_file w' = db
        \<and> (journal w' = journal w0 \<or> journal w' = journal w0 @ TxnBegin # map Executed s))
   \<or> (err = None \<and> tbl = db \<and> store_file w' = db \<and> staged w' = db
        \<and> \<not> in_transaction w' \<and> journal w' = journal w0)
   \<or> (err = Some StoreCommitError \<and> commit_fails e \<and> tbl = db \<and> store_file w' = db
        \<and> staged w' = db \<and> \<not> in_transaction w'
        \<and> journal w' = journal w0 @ TxnBegin # map Executed s @ [TxnRollback])
   \<or> (err = None \<and> \<not> commit_fails e \<and> tbl = replay s db
        \<and> store_file w' = replay s db \<and> staged w' = replay s db
        \<and> \<not> in_transaction w'
        \<and> journal w' = journal w0 @ TxnBegin # map Executed s @ [TxnCommit])"
    by blast
  have 1: "tbl = store_file w'"
    using o by auto
  have 2: "\<exists>J. journal w' = journal w0 @ J \<and> one_transaction J
          \<and> (err = None \<longrightarrow>
                tbl = replay (executed J) db \<and> staged w' = tbl \<and> \<not> in_transaction w'
                \<and> (J = [] \<or> last J = TxnCommit))
          \<and> (err \<noteq> None \<longrightarrow> tbl = db \<and> TxnCommit \<notin> set J)
          \<and> (TxnRollback \<in> set J \<longrightarrow>
                err = Some StoreCommitError \<and> last J = TxnRollback
                \<and> staged w' = db \<and> \<not> in_transaction w')"
  proof -
    consider
        (raised0) "err \<noteq> None" "tbl = db" "journal w' = journal w0"
      | (raised1) "err \<noteq> None" "tbl = db"
          "journal w' = journal w0 @ TxnBegin # map Executed s"
      | (clean) "err = None" "tbl = db" "staged w' = db" "\<not> in_transaction w'"
          "journal w' = journal w0"
      | (rolled_back) "err = Some StoreCommitError" "tbl = db" "staged w' = db"
          "\<not> in_transaction w'"
          "journal w' = journal w0 @ TxnBegin # map Executed s @ [TxnRollback]"
      | (committed) "err = None" "tbl = replay s db" "staged w' = replay s db"
          "\<not> in_transaction w'"
          "journal w' = journal w0 @ TxnBegin # map Executed s @ [TxnCommit]"
      using o by blast
    then show ?thesis
    proof cases
      case raised0
      then show ?thesis
        by (intro exI [of _ "[]"]) auto
    next
      case raised1
      then show ?thesis
        by (intro exI [of _ "TxnBegin # map Executed s"])
           (auto simp: statements_then_end_map [of s "[]", simplified])
    next
      case clean
      then show ?thesis
        by (intro exI [of _ "[]"]) (simp add: replay_def)
    next
      case rolled_back
      then show ?thesis
        by (intro exI [of _ "TxnBegin # map Executed s @ [TxnRollback]"])
           (auto simp: statements_then_end_map)
    next
      case committed
      then show ?thesis
        by (intro exI [of _ "TxnBegin # map Executed s @ [TxnCommit]"])
           (auto simp: statements_then_end_map executed_append executed_map)
    qed
  qed
  have 3: "commit_fails e
          \<and> fst (update_database (e\<lparr>commit_fails := False\<rparr>) db file_list markdown_dir
                   root_path conversion_timeout w0) = None
          \<and> journal (snd (snd (update_database (e\<lparr>commit_fails := False\<rparr>) db file_list
                   markdown_dir root_path conversion_timeout w0))) \<noteq> journal w0 \<longrightarrow>
          err = Some StoreCommitError \<and> tbl = db \<and> last (journal w') = TxnRollback"
  proof (intro impI, elim conjE)
    assume cf: "commit_fails e"
      and ok: "fst (update_database (e\<lparr>commit_fails := False\<rparr>) db file_list markdown_dir
                   root_path conversion_timeout w0) = None"
      and ch: "journal (snd (snd (update_database (e\<lparr>commit_fails := False\<rparr>) db file_list
                   markdown_dir root_path conversion_timeout w0))) \<noteq> journal w0"
    obtain r2 w2 where st:
      "stage_changes e db file_list markdown_dir root_path conversion_timeout w0 = (r2, w2)"
      by (cases "stage_changes e db file_list markdown_dir root_path conversion_timeout w0")
    then have st': "stage_changes (e\<lparr>commit_fails := False\<rparr>) db file_list markdown_dir
                      root_path conversion_timeout w0 = (r2, w2)"
      by (simp add: stage_changes_commit)
    obtain s2 where s2: "pass_open db (journal w0) s2 w2"
      using stage_changes_open [of db w0 e file_list markdown_dir root_path conversion_timeout]
        st by auto
    have r2: "r2 = None"
      using ok update_database_unfold [OF st'] by (cases r2) simp_all
    have it: "in_transaction w2"
      using ch update_database_unfold [OF st'] r2 s2
        commit_and_close_open [OF s2, of "e\<lparr>commit_fails := False\<rparr>"]
      by (cases "in_transaction w2") (simp_all add: pass_open_def)
    from assms update_database_unfold [OF st] r2 it cf commit_and_close_open [OF s2, of e]
    show "err = Some StoreCommitError \<and> tbl = db \<and> last (journal w') = TxnRollback"
      using s2 by (auto simp: pass_open_def)
  qed
  from 1 2 3 show ?thesis
    by (simp only: sql_store_frame remove_missing_store process_files_store
        view_store [OF warmup_txn] simp_thms)
qed

text \<open>
  On the example: the store holds the row of \<^verbatim>\<open>slow.pdf\<close>, which is no longer scanned,
  and \<^verbatim>\<open>a.txt\<close> is new. With a working commit the journal gets one transaction with the
  \<^verbatim>\<open>DELETE\<close> and the \<^verbatim>\<open>INSERT\<close>, and the file then holds the row of \<^verbatim>\<open>a.txt\<close> alone; with
  a failing commit the method raises the commit's error, the journal ends with the
  \<^verbatim>\<open>ROLLBACK\<close>, and the file keeps its one old row.
\<close>

theorem single_transaction_witness:
  "fst (update_database (example_env\<lparr>commit_fails := True\<rparr>) example_table
          [([''data'', ''docs'', ''a.txt''], ''h2'', ''.txt'')]
          example_markdown_dir example_root 5 (init_world example_markdown_dir))
     = Some StoreCommitError
   \<and> fst (snd (update_database (example_env\<lparr>commit_fails := True\<rparr>) example_table
          [([''data'', ''docs'', ''a.txt''], ''h2'', ''.txt'')]
          example_markdown_dir example_root 5 (init_world example_markdown_dir)))
     = example_table
   \<and> last (journal (snd (snd (update_database (example_env\<lparr>commit_fails := True\<rparr>)
          example_table [([''data'', ''docs'', ''a.txt''], ''h2'', ''.txt'')]
          example_markdown_dir example_root 5 (init_world example_markdown_dir)))))
     = TxnRollback
   \<and> journal (snd (snd (update_database example_env example_table
          [([''data'', ''docs'', ''a.txt''], ''h2'', ''.txt'')]
          example_markdown_dir example_root 5 (init_world example_markdown_dir))))
     = [TxnBegin, Executed (Delete [''data'', ''docs'', ''slow.pdf'']),
        Executed (Insert [''data'', ''docs'', ''a.txt'']
          \<lparr>file_hash = ''h2'', embedding_vector = ''vec'', last_updated = 7,
           file_extension = ''.txt''\<rparr>),
        TxnCommit]
   \<and> fst (snd (update_database example_env example_table
          [([''data'', ''docs'', ''a.txt''], ''h2'', ''.txt'')]
          example_markdown_dir example_root 5 (init_world example_markdown_dir)))
     = [([''data'', ''docs'', ''a.txt''],
         \<lparr>file_hash = ''h2'', embedding_vector = ''vec'', last_updated = 7,
          file_extension = ''.txt''\<rparr>)]"
proof -
  have a: "commit_fails (example_env\<lparr>commit_fails := True\<rparr>)"
    by simp
  have b: "fst (update_database (example_env\<lparr>commit_fails := True, commit_fails := False\<rparr>)
          example_table [([''data'', ''docs'', ''a.txt''], ''h2'', ''.txt'')]
          example_markdown_dir example_root 5 (init_world example_markdown_dir)) = None"
    by code_simp
  have c: "journal (snd (snd (update_database
          (example_env\<lparr>commit_fails := True, commit_fails := False\<rparr>)
          example_table [([''data'', ''docs'', ''a.txt''], ''h2'', ''.txt'')]
          example_markdown_dir example_root 5 (init_world example_markdown_dir))))
        \<noteq> journal (init_world example_markdown_dir)"
    by code_simp
  have d: "journal (snd (snd (update_database example_env example_table
          [([''data'', ''docs'', ''a.txt''], ''h2'', ''.txt'')]
          example_markdown_dir example_root 5 (init_world example_markdown_dir))))
     = [TxnBegin, Executed (Delete [''data'', ''docs'', ''slow.pdf'']),
        Executed (Insert [''data'', ''docs'', ''a.txt'']
          \<lparr>file_hash = ''h2'', embedding_vector = ''vec'', last_updated = 7,
           file_extension = ''.txt''\<rparr>),
        TxnCommit]"
    by code_simp
  have f: "fst (snd (update_database example_env example_table
          [([''data'', ''docs'', ''a.txt''], ''h2'', ''.txt'')]
          example_markdown_dir example_root 5 (init_world example_markdown_dir)))
     = [([''data'', ''docs'', ''a.txt''],
         \<lparr>file_hash = ''h2'', embedding_vector = ''vec'', last_updated = 7,
          file_extension = ''.txt''\<rparr>)]"
    by code_simp
  have h: "update_database (example_env\<lparr>commit_fails := True\<rparr>) example_table
          [([''data'', ''docs'', ''a.txt''], ''h2'', ''.txt'')]
          example_markdown_dir example_root 5 (init_world example_markdown_dir)
     = (fst (update_database (example_env\<lparr>commit_fails := True\<rparr>) example_table
          [([''data'', ''docs'', ''a.txt''], ''h2'', ''.txt'')]
          example_markdown_dir example_root 5 (init_world example_markdown_dir)),
        fst (snd (update_database (example_env\<lparr>commit_fails := True\<rparr>) example_table
          [([''data'', ''docs'', ''a.txt''], ''h2'', ''.txt'')]
          example_markdown_dir example_root 5 (init_world example_markdown_dir))),
        snd (snd (update_database (example_env\<lparr>commit_fails := True\<rparr>) example_table
          [([''data'', ''docs'', ''a.txt''], ''h2'', ''.txt'')]
          example_markdown_dir example_root 5 (init_world example_markdown_dir))))"
    by simp
  from single_transaction [OF h] a b c
  have g: "fst (update_database (example_env\<lparr>commit_fails := True\<rparr>) example_table
          [([''data'', ''docs'', ''a.txt''], ''h2'', ''.txt'')]
          example_markdown_dir example_root 5 (init_world example_markdown_dir))
     = Some StoreCommitError
   \<and> fst (snd (update_database (example_env\<lparr>commit_fails := True\<rparr>) example_table
          [([''data'', ''docs'', ''a.txt''], ''h2'', ''.txt'')]
          example_markdown_dir example_root 5 (init_world example_markdown_dir)))
     = example_table
   \<and> last (journal (snd (snd (update_database (example_env\<lparr>commit_fails := True\<rparr>)
          example_table [([''data'', ''docs'', ''a.txt''], ''h2'', ''.txt'')]
          example_markdown_dir example_root 5 (init_world example_markdown_dir)))))
     = TxnRollback"
    by blast
  from d f g show ?thesis
    by (simp only: simp_thms)
qed

section \<open>Properties of the excerpt loader\<close>




lemma find_sub_None:
  "find_sub s sub = None \<Longrightarrow> \<not> prefix sub (drop j s)"
proof (induction s arbitrary: j)
  case Nil
  then show ?case by (simp split: if_splits)
next
  case (Cons c cs)
  from Cons.prems have a: "\<not> prefix sub (c # cs)" and b: "find_sub cs sub = None"
    by (simp_all split: if_splits)
  show ?case
    using a Cons.IH [OF b] by (cases j) simp_all
qed










end
